theory Spec2Isabelle
  imports Main "HOL-Library.Multiset"
begin

section \<open>Data model (src/types.ts and the provider boundary)\<close>

text \<open>
  A rejection reason or thrown value.  \<open>Error m\<close> is JavaScript's \<^verbatim>\<open>new Error(m)\<close> (and
  whatever value a provider call rejects with); \<open>TypeError m\<close> is the engine's own
  exception for an illegal operation on a value.
\<close>

datatype error = Error string | TypeError string

text \<open>
  How the promise of an \<^verbatim>\<open>async\<close> function ends.  \<open>Pending\<close> is the promise that has not
  settled within the number of loop iterations the run was given.
\<close>

datatype 'a outcome = Resolved 'a | Rejected error | Pending

text \<open>
  \<^verbatim>\<open>GeneratedMedia\<close> of src/types.ts, as the chain of the two \<^verbatim>\<open>Omit<...>\<close> types the
  services use: the orchestrator returns \<^verbatim>\<open>{url, caption}\<close>, it hands
  \<^verbatim>\<open>{url, caption, prompt, type}\<close> to the recorder, and the recorder adds \<^verbatim>\<open>id\<close> and
  \<^verbatim>\<open>timestamp\<close>.  Timestamps are \<^verbatim>\<open>Date.now()\<close> readings: integers.
\<close>

datatype media_kind = KImage | KVideo

record media_result =
  url :: string
  caption :: string

record history_input = media_result +
  media_prompt :: string
  media_type :: media_kind

record GeneratedMedia = history_input +
  media_id :: string
  timestamp :: int

text \<open>
  The operation handle of the video provider, with exactly the fields
  \<^verbatim>\<open>generateVideoAndCaption\<close> reads: \<^verbatim>\<open>operation.done\<close> and
  \<^verbatim>\<open>operation.response?.generatedVideos?.[0]?.video?.uri\<close>.  Every step of the optional
  chain may be absent.  \<open>name\<close> is the provider's opaque continuation token.
\<close>

record Video =
  uri :: "string option"

record GeneratedVideo =
  video :: "Video option"

record GenerateVideosResponse =
  generatedVideos :: "GeneratedVideo list option"

record Operation =
  name :: string
  op_done :: bool
  response :: "GenerateVideosResponse option"

text \<open>The result of \<^verbatim>\<open>fetch\<close>: reading its body with \<^verbatim>\<open>.blob()\<close> may itself reject.\<close>

datatype Response = Response (blob: "error + string")

text \<open>
  What one invocation does, in program order.  \<open>OnProgress\<close> is a call of the caller's
  progress callback (both callers in the repository pass a state setter or a no-op, which
  return normally).  \<open>AddToHistory\<close> is the un-awaited call of the recorder, tagged with
  what the promise it returns eventually settles to.  \<open>Settled\<close> marks the point where the
  promise returned by the video workflow resolves or rejects.  A run of the image
  workflow does not record that point: the callbacks of the images go on after a
  rejection of the call, and where the call settles among their steps depends on how the
  answers are scheduled.
\<close>

datatype event =
    OnProgress string
  | GenerateImages string int
  | GenerateContent string
  | GenerateVideos string
  | SetTimeout nat
  | GetVideosOperation Operation
  | Fetch string
  | Blob
  | CreateObjectURL string
  | AddToHistory string history_input "error + GeneratedMedia"
  | Settled

text \<open>
  Everything outside the two functions: the generative provider (\<^verbatim>\<open>ai.models\<close>,
  \<^verbatim>\<open>ai.operations\<close>), the browser (\<^verbatim>\<open>fetch\<close>, \<^verbatim>\<open>URL.createObjectURL\<close>,
  \<^verbatim>\<open>process.env.API_KEY\<close>) and the recorder imported from the persistence service.
  A provider call either rejects (\<open>Inl\<close>) or resolves (\<open>Inr\<close>).
  \<^item> \<open>generateImages p n\<close>: the \<^verbatim>\<open>imageBytes\<close> of the returned images, in the provider's order;
  \<^item> \<open>generateContent i p\<close>: the \<^verbatim>\<open>text\<close> answering the \<open>i\<close>-th caption request of the invocation;
  \<^item> \<open>latency i\<close>: when the answer to the \<open>i\<close>-th caption request arrives (answers are
    handled in order of arrival, requests issued earlier first among equals);
  \<^item> \<open>getVideosOperation k h\<close>: the handle answering the \<open>k\<close>-th status refresh (counted
    from 0), which was passed the handle \<open>h\<close>;
  \<^item> \<open>recorder u x\<close>: what the promise of \<^verbatim>\<open>addToHistory(u, x)\<close> settles to.
\<close>

record provider =
  generateImages :: "string \<Rightarrow> int \<Rightarrow> error + string list"
  generateContent :: "nat \<Rightarrow> string \<Rightarrow> error + string"
  latency :: "nat \<Rightarrow> nat"
  generateVideos :: "string \<Rightarrow> error + Operation"
  getVideosOperation :: "nat \<Rightarrow> Operation \<Rightarrow> error + Operation"
  fetch :: "string \<Rightarrow> error + Response"
  createObjectURL :: "string \<Rightarrow> string"
  API_KEY :: string
  recorder :: "string \<Rightarrow> history_input \<Rightarrow> error + GeneratedMedia"

text \<open>
  JavaScript truthiness of an optional string (\<^verbatim>\<open>if (userId)\<close>, \<^verbatim>\<open>!downloadLink\<close>):
  \<^verbatim>\<open>undefined\<close> and the empty string are falsy.
\<close>

fun truthy :: "string option \<Rightarrow> bool" where
  "truthy None = False"
| "truthy (Some s) = (s \<noteq> [])"

section \<open>The video workflow (src/services/geminiService.ts, lines 57 to 118)\<close>

definition progressMessages :: "string list" where
  "progressMessages =
    [''Warming up the pixels...'',
     ''Directing the digital actors...'',
     ''Composing the visual symphony...'',
     ''Rendering final scenes...'',
     ''Almost there, adding the final touches!'']"

text \<open>
  The \<^verbatim>\<open>while (!operation.done)\<close> loop of lines 82 to 87.  The first argument bounds the
  number of iterations the run is observed for; a run that is still polling then is
  \<open>Pending\<close>, with the events so far.  \<open>messageIndex\<close> counts the iterations, so it is also
  the number of the refresh call.
\<close>

fun poll :: "nat \<Rightarrow> provider \<Rightarrow> Operation \<Rightarrow> nat \<Rightarrow> Operation outcome \<times> event list" where
  "poll 0 env operation messageIndex =
     (if op_done operation then (Resolved operation, []) else (Pending, []))"
| "poll (Suc fuel) env operation messageIndex =
     (if op_done operation then (Resolved operation, [])
      else
        (let iteration =
               [OnProgress (progressMessages ! (messageIndex mod length progressMessages)),
                SetTimeout 10000,
                GetVideosOperation operation]
         in case getVideosOperation env messageIndex operation of
              Inl e \<Rightarrow> (Rejected e, iteration)
            | Inr operation' \<Rightarrow>
                (case poll fuel env operation' (messageIndex + 1) of
                   (r, rest) \<Rightarrow> (r, iteration @ rest))))"

text \<open>Line 90: \<^verbatim>\<open>operation.response?.generatedVideos?.[0]?.video?.uri\<close>.\<close>

definition downloadLink :: "Operation \<Rightarrow> string option" where
  "downloadLink operation =
     (case response operation of
        None \<Rightarrow> None
      | Some r \<Rightarrow>
          (case generatedVideos r of
             None \<Rightarrow> None
           | Some [] \<Rightarrow> None
           | Some (v # _) \<Rightarrow>
               (case video v of
                  None \<Rightarrow> None
                | Some f \<Rightarrow> uri f)))"

text \<open>Lines 89 to 117: what follows the loop, up to the \<^verbatim>\<open>return\<close> or the \<^verbatim>\<open>throw\<close>.\<close>

definition afterPoll ::
  "provider \<Rightarrow> string \<Rightarrow> string option \<Rightarrow> Operation \<Rightarrow> media_result outcome \<times> event list" where
  \<open>afterPoll env prompt userId operation =
     (let fetching = [OnProgress ''Video generation complete! Fetching the file...'']
      in case downloadLink operation of
           None \<Rightarrow> (Rejected (Error ''Video generation failed or returned no link.''), fetching)
         | Some link \<Rightarrow>
             if link = [] then
               (Rejected (Error ''Video generation failed or returned no link.''), fetching)
             else
               (let request = link @ ''&key='' @ API_KEY env
                in case fetch env request of
                     Inl e \<Rightarrow> (Rejected e, fetching @ [Fetch request])
                   | Inr videoDataResponse \<Rightarrow>
                       (case blob videoDataResponse of
                          Inl e \<Rightarrow> (Rejected e, fetching @ [Fetch request, Blob])
                        | Inr videoBlob \<Rightarrow>
                            (let videoUrl = createObjectURL env videoBlob;
                                 captionPrompt =
                                   ''Generate a short, engaging social media caption for a video about: "''
                                   @ prompt @ ''". Include 3-5 relevant hashtags.'';
                                 fetched =
                                   fetching @
                                   [Fetch request, Blob, CreateObjectURL videoBlob,
                                    OnProgress ''Generating a catchy caption...'',
                                    GenerateContent captionPrompt]
                             in case generateContent env 0 captionPrompt of
                                  Inl e \<Rightarrow> (Rejected e, fetched)
                                | Inr text \<Rightarrow>
                                    (let result = \<lparr>url = videoUrl, caption = text\<rparr>;
                                         item = \<lparr>url = videoUrl, caption = text,
                                                 media_prompt = prompt, media_type = KVideo\<rparr>
                                     in (Resolved result,
                                         fetched @ [OnProgress ''Done!''] @
                                         (case userId of
                                            None \<Rightarrow> []
                                          | Some u \<Rightarrow>
                                              if u = [] then []
                                              else [AddToHistory u item (recorder env u item)])))))))\<close>

text \<open>Line 64: the template literal of \<^verbatim>\<open>fullPrompt\<close>.\<close>

definition videoFullPrompt :: "string \<Rightarrow> string \<Rightarrow> string" where
  "videoFullPrompt prompt musicSuggestion =
     prompt @ ''. The video should have a background music vibe of: '' @ musicSuggestion
     @ ''. The video should be high-quality and suitable for social media.''"

text \<open>
  \<^verbatim>\<open>generateVideoAndCaption(prompt, musicSuggestion, onProgress, userId)\<close>.  The calls of
  \<^verbatim>\<open>onProgress\<close> are the \<open>OnProgress\<close> events of the run.
\<close>

definition generateVideoAndCaption ::
  "nat \<Rightarrow> provider \<Rightarrow> string \<Rightarrow> string \<Rightarrow> string option \<Rightarrow> media_result outcome \<times> event list" where
  "generateVideoAndCaption fuel env prompt musicSuggestion userId =
     (let fullPrompt = videoFullPrompt prompt musicSuggestion;
          submitting =
            [OnProgress ''Crafting your video prompt...'',
             OnProgress ''Sending request to video model... this can take a few minutes.'',
             GenerateVideos fullPrompt]
      in case generateVideos env fullPrompt of
           Inl e \<Rightarrow> (Rejected e, submitting @ [Settled])
         | Inr operation \<Rightarrow>
             (case poll fuel env operation 0 of
                (Pending, polling) \<Rightarrow> (Pending, submitting @ polling)
              | (Rejected e, polling) \<Rightarrow> (Rejected e, submitting @ polling @ [Settled])
              | (Resolved operation', polling) \<Rightarrow>
                  (case afterPoll env prompt userId operation' of
                     (r, rest) \<Rightarrow> (r, submitting @ polling @ rest @ [Settled]))))"

section \<open>The image workflow (src/services/geminiService.ts, lines 11 to 55)\<close>

text \<open>
  Lines 17 to 19 and line 34: the two template literals.  A string is truthy when it is
  not empty.
\<close>

definition imageFullPrompt :: "string \<Rightarrow> string \<Rightarrow> string" where
  \<open>imageFullPrompt prompt textOverlay =
     (if textOverlay \<noteq> [] then
        prompt @ '', with the text "'' @ textOverlay
        @ ''" clearly visible and elegantly integrated.''
      else prompt)\<close>

definition imageCaptionPrompt :: "string \<Rightarrow> string" where
  \<open>imageCaptionPrompt prompt =
     ''Generate a short, catchy social media caption for an image about: "''
     @ prompt @ ''". Include 3-5 relevant hashtags.''\<close>

text \<open>
  Lines 32 to 51: the \<^verbatim>\<open>async\<close> callback of the \<open>i\<close>-th image, up to the answer to its
  caption request.  It builds the caption prompt from \<^verbatim>\<open>prompt\<close>, issues the request with
  it (the event, and the call of the provider with the same argument), and its promise
  rejects when the request rejects.
\<close>

definition caption_branch ::
  "provider \<Rightarrow> string \<Rightarrow> nat \<Rightarrow> string \<Rightarrow> event \<times> (error + media_result)" where
  "caption_branch env prompt i imageBytes =
     (let imageUrl = ''data:image/jpeg;base64,'' @ imageBytes;
          captionPrompt = imageCaptionPrompt prompt
      in (GenerateContent captionPrompt,
          case generateContent env i captionPrompt of
            Inl e \<Rightarrow> Inl e
          | Inr text \<Rightarrow> Inr \<lparr>url = imageUrl, caption = text\<rparr>))"

text \<open>
  \<^verbatim>\<open>Promise.all\<close>: over the branches in order of arrival, the first rejection rejects the
  join; with none, the join resolves to the values in the order the branches were created.
\<close>

fun first_rejection :: "(error + 'a) list \<Rightarrow> error option" where
  "first_rejection [] = None"
| "first_rejection (Inl e # bs) = Some e"
| "first_rejection (Inr r # bs) = first_rejection bs"

fun fulfilled :: "(error + 'a) list \<Rightarrow> 'a list" where
  "fulfilled [] = []"
| "fulfilled (Inl e # bs) = fulfilled bs"
| "fulfilled (Inr r # bs) = r # fulfilled bs"

definition promise_all :: "(error + 'a) list \<Rightarrow> (error + 'a) list \<Rightarrow> 'a list outcome" where
  "promise_all created arrived =
     (case first_rejection arrived of
        Some e \<Rightarrow> Rejected e
      | None \<Rightarrow> Resolved (fulfilled created))"

text \<open>
  What the callbacks do as their caption answers arrive (lines 41 to 50): a callback
  whose answer is there hands its result to the recorder when a user is signed in; a
  callback whose request rejected does nothing more.  Every callback runs to its end,
  also when the call has been rejected by then.
\<close>

fun arrive :: "provider \<Rightarrow> string \<Rightarrow> string option \<Rightarrow> (error + media_result) list \<Rightarrow> event list" where
  "arrive env prompt userId [] = []"
| "arrive env prompt userId (Inl e # bs) = arrive env prompt userId bs"
| "arrive env prompt userId (Inr result # bs) =
     (let item = \<lparr>url = url result, caption = caption result,
                  media_prompt = prompt, media_type = KImage\<rparr>
      in (case userId of
            None \<Rightarrow> []
          | Some u \<Rightarrow> if u = [] then [] else [AddToHistory u item (recorder env u item)])
         @ arrive env prompt userId bs)"

text \<open>
  \<^verbatim>\<open>generateImagesAndCaptions(prompt, textOverlay, variations, userId)\<close>.  The events are
  the batch request, the caption requests of the callbacks in the order the callbacks
  are created, and what the callbacks do as the answers arrive.
\<close>

definition generateImagesAndCaptions ::
  "provider \<Rightarrow> string \<Rightarrow> string \<Rightarrow> int \<Rightarrow> string option \<Rightarrow> media_result list outcome \<times> event list" where
  "generateImagesAndCaptions env prompt textOverlay variations userId =
     (let fullPrompt = imageFullPrompt prompt textOverlay
      in case generateImages env fullPrompt variations of
           Inl e \<Rightarrow> (Rejected e, [GenerateImages fullPrompt variations])
         | Inr generatedImages \<Rightarrow>
             (let branches =
                    map (\<lambda>(i, imageBytes). (i, caption_branch env prompt i imageBytes))
                      (enumerate 0 generatedImages);
                  arrivals = sort_key (\<lambda>(i, b). latency env i) branches
              in (promise_all (map (snd \<circ> snd) branches) (map (snd \<circ> snd) arrivals),
                  [GenerateImages fullPrompt variations]
                  @ map (fst \<circ> snd) branches
                  @ arrive env prompt userId (map (snd \<circ> snd) arrivals))))"

section \<open>The history store (src/unnamed/part_000, lines 3 to 23)\<close>

text \<open>
  \<^verbatim>\<open>db.history\<close> is a plain object literal used as a dictionary from user ids to arrays.
  Its own properties are the map \<open>history\<close>.  Reading \<^verbatim>\<open>db.history[userId]\<close> finds an own
  property first and then what every object inherits from \<^verbatim>\<open>Object.prototype\<close>: for the
  names below the read yields a function (an object for \<^verbatim>\<open>__proto__\<close>), which is truthy
  and not iterable.  (The \<^verbatim>\<open>sheets\<close> and \<^verbatim>\<open>chats\<close> tables are not touched by
  \<^verbatim>\<open>getHistory\<close> and are left out.)
\<close>

record db =
  history :: "string \<rightharpoonup> GeneratedMedia list"

definition object_prototype_names :: "string list" where
  "object_prototype_names =
     [''constructor'', ''hasOwnProperty'', ''isPrototypeOf'', ''propertyIsEnumerable'',
      ''toLocaleString'', ''toString'', ''valueOf'', ''__proto__'',
      ''__defineGetter__'', ''__defineSetter__'', ''__lookupGetter__'', ''__lookupSetter__'']"

datatype property = Undefined | Array "GeneratedMedia list" | Inherited

definition read_history :: "db \<Rightarrow> string \<Rightarrow> property" where
  "read_history d userId =
     (case history d userId of
        Some items \<Rightarrow> Array items
      | None \<Rightarrow> if userId \<in> set object_prototype_names then Inherited else Undefined)"

text \<open>
  \<^verbatim>\<open>Array.prototype.sort(compare)\<close>: a stable sort, \<open>a\<close> before \<open>b\<close> when
  \<open>compare a b \<le> 0\<close>.
\<close>

fun insert_by :: "('a \<Rightarrow> 'a \<Rightarrow> int) \<Rightarrow> 'a \<Rightarrow> 'a list \<Rightarrow> 'a list" where
  "insert_by compare a [] = [a]"
| "insert_by compare a (b # bs) =
     (if compare a b \<le> 0 then a # b # bs else b # insert_by compare a bs)"

definition js_sort :: "('a \<Rightarrow> 'a \<Rightarrow> int) \<Rightarrow> 'a list \<Rightarrow> 'a list" where
  "js_sort compare items = foldr (insert_by compare) items []"

text \<open>
  \<^verbatim>\<open>getHistory(userId)\<close>, from the moment its latency timer has fired: the store it finds,
  the promise's outcome and the store it leaves.  Spreading a value that is not iterable
  throws a \<^verbatim>\<open>TypeError\<close>.
\<close>

definition getHistory :: "db \<Rightarrow> string \<Rightarrow> (error + GeneratedMedia list) \<times> db" where
  "getHistory d userId =
     (let d' = (case read_history d userId of
                  Undefined \<Rightarrow> d\<lparr>history := (history d)(userId \<mapsto> [])\<rparr>
                | Array items \<Rightarrow> d
                | Inherited \<Rightarrow> d)
      in case read_history d' userId of
           Array items \<Rightarrow> (Inr (js_sort (\<lambda>a b. timestamp b - timestamp a) items), d')
         | Undefined \<Rightarrow> (Inl (TypeError ''db.history[userId] is not iterable''), d')
         | Inherited \<Rightarrow> (Inl (TypeError ''db.history[userId] is not iterable''), d'))"

section \<open>Observations on a run\<close>

text \<open>The handles passed to the status refresh, in the order of the calls.\<close>

fun refreshed :: "event list \<Rightarrow> Operation list" where
  "refreshed [] = []"
| "refreshed (GetVideosOperation h # evs) = h # refreshed evs"
| "refreshed (e # evs) = refreshed evs"

text \<open>The messages passed to the progress callback, in the order of the calls.\<close>

fun progress :: "event list \<Rightarrow> string list" where
  "progress [] = []"
| "progress (OnProgress m # evs) = m # progress evs"
| "progress (e # evs) = progress evs"

text \<open>What happens after the fetch of the binary artifact has been issued.\<close>

fun after_fetch :: "event list \<Rightarrow> event list" where
  "after_fetch [] = []"
| "after_fetch (Fetch request # evs) = evs"
| "after_fetch (e # evs) = after_fetch evs"

text \<open>The batch requests and the caption requests of a run.\<close>

fun batch_requests :: "event list \<Rightarrow> (string \<times> int) list" where
  "batch_requests [] = []"
| "batch_requests (GenerateImages p n # evs) = (p, n) # batch_requests evs"
| "batch_requests (e # evs) = batch_requests evs"

fun caption_requests :: "event list \<Rightarrow> string list" where
  "caption_requests [] = []"
| "caption_requests (GenerateContent p # evs) = p # caption_requests evs"
| "caption_requests (e # evs) = caption_requests evs"

text \<open>What happens after the promise returned to the caller has settled.\<close>

fun after_settled :: "event list \<Rightarrow> event list" where
  "after_settled [] = []"
| "after_settled (Settled # evs) = evs"
| "after_settled (e # evs) = after_settled evs"

text \<open>
  The history log stored for a user; a user the store has never seen has the empty log.
\<close>

definition stored :: "db \<Rightarrow> string \<Rightarrow> GeneratedMedia list" where
  "stored d userId = (case history d userId of None \<Rightarrow> [] | Some items \<Rightarrow> items)"

section \<open>A stub provider\<close>

text \<open>
  The stub of the spec's scenarios: two fixed image payloads, one fixed caption text, a
  video operation that reports completion on the third refresh only, and a recorder whose
  every write fails.
\<close>

definition pending_operation :: Operation where
  "pending_operation = \<lparr>name = ''operations/1'', op_done = False, response = None\<rparr>"

definition completed_operation :: Operation where
  "completed_operation =
     \<lparr>name = ''operations/1'', op_done = True,
      response = Some \<lparr>generatedVideos =
        Some [\<lparr>video = Some \<lparr>uri = Some ''https://videos.example/v1?alt=media''\<rparr>\<rparr>]\<rparr>\<rparr>"

definition stub :: provider where
  "stub =
     \<lparr>generateImages = (\<lambda>p n. Inr [''AAAA'', ''BBBB'']),
      generateContent = (\<lambda>i p. Inr ''Ride on! #bike''),
      latency = (\<lambda>i. 0),
      generateVideos = (\<lambda>p. Inr pending_operation),
      getVideosOperation =
        (\<lambda>k h. Inr (if k < 2 then h\<lparr>name := name h @ ''+''\<rparr> else completed_operation)),
      fetch = (\<lambda>request. Inr (Response (Inr ''video-bytes''))),
      createObjectURL = (\<lambda>b. ''blob:local/1''),
      API_KEY = ''KEY'',
      recorder = (\<lambda>u x. Inl (Error ''history write failed''))\<rparr>"

text \<open>A store holding three entries of one user, in the order they were recorded.\<close>

definition entry :: "string \<Rightarrow> int \<Rightarrow> GeneratedMedia" where
  "entry i t =
     \<lparr>url = ''blob:local/1'', caption = ''Ride on! #bike'', media_prompt = ''a cat'',
      media_type = KVideo, media_id = i, timestamp = t\<rparr>"

definition sample_db :: db where
  "sample_db =
     \<lparr>history = [''mock-user-123'' \<mapsto>
        [entry ''media-10-0.1'' 10, entry ''media-20-0.2'' 20, entry ''media-30-0.3'' 30]]\<rparr>"

section \<open>Properties of the poll loop\<close>

text \<open>The observations distribute over the concatenation of runs.\<close>

lemma refreshed_append: "refreshed (xs @ ys) = refreshed xs @ refreshed ys"
  by (induction xs rule: refreshed.induct) simp_all

lemma progress_append: "progress (xs @ ys) = progress xs @ progress ys"
  by (induction xs rule: progress.induct) simp_all


text \<open>
  One iteration of the loop, as three equations: the operation is complete; the refresh
  rejects; the refresh returns the next handle.
\<close>

lemma poll_done: "op_done h \<Longrightarrow> poll fuel env h m = (Resolved h, [])"
  by (cases fuel) simp_all

lemma poll_rejects:
  "\<not> op_done h \<Longrightarrow> getVideosOperation env m h = Inl e \<Longrightarrow>
   poll (Suc fuel) env h m =
     (Rejected e,
      [OnProgress (progressMessages ! (m mod length progressMessages)), SetTimeout 10000,
       GetVideosOperation h])"
  by simp

lemma poll_continues:
  "\<not> op_done h \<Longrightarrow> getVideosOperation env m h = Inr h1 \<Longrightarrow>
   poll (Suc fuel) env h m =
     (fst (poll fuel env h1 (Suc m)),
      [OnProgress (progressMessages ! (m mod length progressMessages)), SetTimeout 10000,
       GetVideosOperation h] @ snd (poll fuel env h1 (Suc m)))"
  by (simp add: case_prod_beta)

declare poll.simps [simp del]

text \<open>The handles passed to the refresh form a chain, and none of them is complete.\<close>

lemma poll_refreshed_not_done:
  "h' \<in> set (refreshed (snd (poll fuel env h m))) \<Longrightarrow> \<not> op_done h'"
proof (induction fuel arbitrary: h m)
  case 0
  then show ?case by (simp add: poll.simps split: if_splits)
next
  case (Suc fuel)
  show ?case
  proof (cases "op_done h")
    case True
    with Suc.prems show ?thesis by (simp add: poll_done)
  next
    case False
    show ?thesis
    proof (cases "getVideosOperation env m h")
      case (Inl e)
      with False Suc.prems show ?thesis by (auto simp: poll_rejects)
    next
      case (Inr h1)
      with False Suc.prems Suc.IH [of h1 "Suc m"] show ?thesis
        by (auto simp: poll_continues)
    qed
  qed
qed

lemma poll_refreshed_head:
  assumes "refreshed (snd (poll fuel env h m)) \<noteq> []"
  shows "refreshed (snd (poll fuel env h m)) ! 0 = h"
proof (cases fuel)
  case 0
  with assms show ?thesis by (simp add: poll.simps split: if_splits)
next
  case (Suc n)
  with assms show ?thesis
    by (cases "op_done h"; cases "getVideosOperation env m h")
       (simp_all add: poll_done poll_rejects poll_continues)
qed

lemma poll_refreshed_chain:
  "Suc k < length (refreshed (snd (poll fuel env h m))) \<Longrightarrow>
   getVideosOperation env (m + k) (refreshed (snd (poll fuel env h m)) ! k)
     = Inr (refreshed (snd (poll fuel env h m)) ! Suc k)"
proof (induction fuel arbitrary: h m k)
  case 0
  then show ?case by (simp add: poll.simps split: if_splits)
next
  case (Suc fuel)
  show ?case
  proof (cases "op_done h")
    case True
    with Suc.prems show ?thesis by (simp add: poll_done)
  next
    case False
    show ?thesis
    proof (cases "getVideosOperation env m h")
      case (Inl e)
      with False Suc.prems show ?thesis by (simp add: poll_rejects)
    next
      case (Inr h1)
      let ?rest = "refreshed (snd (poll fuel env h1 (Suc m)))"
      have tr: "refreshed (snd (poll (Suc fuel) env h m)) = h # ?rest"
        using False Inr by (simp add: poll_continues)
      show ?thesis
      proof (cases k)
        case 0
        have "?rest \<noteq> []" using Suc.prems tr 0 by auto
        then have "?rest ! 0 = h1" by (rule poll_refreshed_head)
        then show ?thesis using tr 0 Inr by simp
      next
        case (Suc j)
        have "Suc j < length ?rest" using Suc.prems tr Suc by simp
        from Suc.IH [OF this] show ?thesis using tr Suc by simp
      qed
    qed
  qed
qed

lemma upt_shift: "[0 ..< Suc n] = 0 # map Suc [0 ..< n]"
  by (simp only: map_Suc_upt upt_conv_Cons [of 0 "Suc n"] zero_less_Suc)

lemma poll_progress:
  "progress (snd (poll fuel env h m)) =
     map (\<lambda>k. progressMessages ! ((m + k) mod 5))
       [0 ..< length (refreshed (snd (poll fuel env h m)))]"
proof (induction fuel arbitrary: h m)
  case 0
  then show ?case by (simp add: poll.simps)
next
  case (Suc fuel)
  have five: "length progressMessages = 5" by (simp add: progressMessages_def)
  show ?case
  proof (cases "op_done h")
    case True
    then show ?thesis by (simp add: poll_done)
  next
    case False
    show ?thesis
    proof (cases "getVideosOperation env m h")
      case (Inl e)
      with False show ?thesis by (simp add: poll_rejects five)
    next
      case (Inr h1)
      let ?n = "length (refreshed (snd (poll fuel env h1 (Suc m))))"
      have "progress (snd (poll (Suc fuel) env h m)) =
              progressMessages ! (m mod 5) # progress (snd (poll fuel env h1 (Suc m)))"
        using False Inr by (simp add: poll_continues five)
      also have "\<dots> = progressMessages ! (m mod 5) #
              map (\<lambda>k. progressMessages ! ((Suc m + k) mod 5)) [0 ..< ?n]"
        by (simp only: Suc.IH)
      also have "\<dots> = map (\<lambda>k. progressMessages ! ((m + k) mod 5)) [0 ..< Suc ?n]"
        by (simp only: upt_shift list.map map_map comp_def add_Suc_right add_Suc add_0_right)
      also have "Suc ?n = length (refreshed (snd (poll (Suc fuel) env h m)))"
        using False Inr by (simp add: poll_continues)
      finally show ?thesis .
    qed
  qed
qed

lemma poll_resolved_done: "fst (poll fuel env h m) = Resolved h' \<Longrightarrow> op_done h'"
proof (induction fuel arbitrary: h m)
  case 0
  then show ?case by (simp add: poll.simps split: if_splits)
next
  case (Suc fuel)
  then show ?case
    by (cases "op_done h"; cases "getVideosOperation env m h")
       (auto simp: poll_done poll_rejects poll_continues)
qed

text \<open>
  Why the loop is left normally, and that a run observed for longer than it takes agrees
  with the shorter observation.
\<close>

lemma poll_resolved_cause:
  assumes "fst (poll fuel env h m) = Resolved h'"
  shows "(op_done h \<and> h' = h) \<or>
         (\<exists>k. k < length (refreshed (snd (poll fuel env h m))) \<and>
              getVideosOperation env (m + k) (refreshed (snd (poll fuel env h m)) ! k) = Inr h' \<and>
              op_done h')"
  using assms
proof (induction fuel arbitrary: h m)
  case 0
  then show ?case by (simp add: poll.simps split: if_splits)
next
  case (Suc fuel)
  show ?case
  proof (cases "op_done h")
    case True
    with Suc.prems show ?thesis by (simp add: poll_done)
  next
    case False
    show ?thesis
    proof (cases "getVideosOperation env m h")
      case (Inl e)
      with False Suc.prems show ?thesis by (simp add: poll_rejects)
    next
      case (Inr h1)
      let ?rest = "refreshed (snd (poll fuel env h1 (Suc m)))"
      have tr: "refreshed (snd (poll (Suc fuel) env h m)) = h # ?rest"
        using False Inr by (simp add: poll_continues)
      have "fst (poll fuel env h1 (Suc m)) = Resolved h'"
        using False Inr Suc.prems by (simp add: poll_continues)
      from Suc.IH [OF this]
      consider "op_done h1" "h' = h1"
        | k where "k < length ?rest" "getVideosOperation env (Suc m + k) (?rest ! k) = Inr h'" "op_done h'"
        by blast
      then show ?thesis
      proof cases
        case 1
        then have "0 < length (h # ?rest) \<and> getVideosOperation env (m + 0) ((h # ?rest) ! 0) = Inr h' \<and> op_done h'"
          using Inr by simp
        then show ?thesis unfolding tr by blast
      next
        case 2
        then have "Suc k < length (h # ?rest) \<and> getVideosOperation env (m + Suc k) ((h # ?rest) ! Suc k) = Inr h' \<and> op_done h'"
          by simp
        then show ?thesis unfolding tr by blast
      qed
    qed
  qed
qed

lemma poll_refresh_done_resolves:
  assumes "k < length (refreshed (snd (poll fuel env h m)))"
    and "getVideosOperation env (m + k) (refreshed (snd (poll fuel env h m)) ! k) = Inr h'"
    and "op_done h'"
  shows "fst (poll (Suc k) env h m) = Resolved h'"
  using assms
proof (induction fuel arbitrary: h m k)
  case 0
  then show ?case by (simp add: poll.simps split: if_splits)
next
  case (Suc fuel)
  show ?case
  proof (cases "op_done h")
    case True
    with Suc.prems show ?thesis by (simp add: poll_done)
  next
    case False
    show ?thesis
    proof (cases "getVideosOperation env m h")
      case (Inl e)
      with False Suc.prems show ?thesis by (simp add: poll_rejects)
    next
      case (Inr h1)
      let ?rest = "refreshed (snd (poll fuel env h1 (Suc m)))"
      have tr: "refreshed (snd (poll (Suc fuel) env h m)) = h # ?rest"
        using False Inr by (simp add: poll_continues)
      show ?thesis
      proof (cases k)
        case 0
        then have "h1 = h'" using Suc.prems(2) tr Inr by simp
        then show ?thesis using 0 False Inr Suc.prems(3)
          by (simp add: poll_continues [of h env m h' 0] poll_continues [of h env m h' fuel] poll_done)
      next
        case (Suc j)
        have "j < length ?rest" using Suc.prems(1) tr Suc by simp
        moreover have "getVideosOperation env (Suc m + j) (?rest ! j) = Inr h'"
          using Suc.prems(2) tr Suc by simp
        ultimately have "fst (poll (Suc j) env h1 (Suc m)) = Resolved h'"
          using Suc.prems(3) by (rule Suc.IH)
        then show ?thesis using Suc False Inr
          by (simp add: poll_continues [of h env m h1])
      qed
    qed
  qed
qed

lemma poll_fuel_mono:
  "fst (poll fuel env h m) \<noteq> Pending \<Longrightarrow> poll (fuel + n) env h m = poll fuel env h m"
proof (induction fuel arbitrary: h m)
  case 0
  then show ?case by (simp add: poll.simps poll_done split: if_splits)
next
  case (Suc fuel)
  then show ?case
    by (cases "op_done h"; cases "getVideosOperation env m h")
       (simp_all add: poll_done poll_rejects poll_continues)
qed

section \<open>The structure of a video run\<close>

lemma poll_events:
  "e \<in> set (snd (poll fuel env h m)) \<Longrightarrow>
   (\<exists>s. e = OnProgress s) \<or> e = SetTimeout 10000 \<or> (\<exists>h'. e = GetVideosOperation h')"
proof (induction fuel arbitrary: h m)
  case 0
  then show ?case by (simp add: poll.simps split: if_splits)
next
  case (Suc fuel)
  show ?case
  proof (cases "op_done h")
    case True
    with Suc.prems show ?thesis by (simp add: poll_done)
  next
    case False
    show ?thesis
    proof (cases "getVideosOperation env m h")
      case (Inl e')
      with False Suc.prems show ?thesis by (auto simp: poll_rejects)
    next
      case (Inr h1)
      with False Suc.prems Suc.IH [of h1 "Suc m"] show ?thesis
        by (auto simp: poll_continues)
    qed
  qed
qed

lemma after_fetch_skip:
  "(\<And>e. e \<in> set xs \<Longrightarrow> \<forall>r. e \<noteq> Fetch r) \<Longrightarrow> after_fetch (xs @ ys) = after_fetch ys"
proof (induction xs)
  case Nil
  then show ?case by simp
next
  case (Cons x xs)
  then have "\<forall>r. x \<noteq> Fetch r" by simp
  moreover have "after_fetch (xs @ ys) = after_fetch ys" using Cons by simp
  ultimately show ?case by (cases x) simp_all
qed

lemma after_settled_skip:
  "Settled \<notin> set xs \<Longrightarrow> after_settled (xs @ ys) = after_settled ys"
proof (induction xs)
  case Nil
  then show ?case by simp
next
  case (Cons x xs)
  then show ?case by (cases x) simp_all
qed

lemma poll_no_fetch: "e \<in> set (snd (poll fuel env h m)) \<Longrightarrow> \<forall>r. e \<noteq> Fetch r"
  using poll_events [of e fuel env h m] by auto

lemma poll_no_settled: "Settled \<notin> set (snd (poll fuel env h m))"
  using poll_events [of Settled fuel env h m] by auto

lemma afterPoll_no_link:
  "\<not> truthy (downloadLink h) \<Longrightarrow>
   afterPoll env p u h =
     (Rejected (Error ''Video generation failed or returned no link.''),
      [OnProgress ''Video generation complete! Fetching the file...''])"
  by (cases "downloadLink h") (simp_all add: afterPoll_def)

lemma afterPoll_not_pending: "fst (afterPoll env p u h) \<noteq> Pending"
  by (simp add: afterPoll_def Let_def split: option.splits sum.splits)

lemma afterPoll_refreshed: "refreshed (snd (afterPoll env p u h)) = []"
  by (simp add: afterPoll_def Let_def split: option.splits sum.splits)

lemma afterPoll_no_settled: "Settled \<notin> set (snd (afterPoll env p u h))"
  by (simp add: afterPoll_def Let_def split: option.splits sum.splits)

lemma afterPoll_head:
  "\<exists>rest. snd (afterPoll env p u h) =
     OnProgress ''Video generation complete! Fetching the file...'' # rest"
  by (simp add: afterPoll_def Let_def split: option.splits sum.splits)

lemma afterPoll_fetch:
  assumes "Fetch request \<in> set (snd (afterPoll env p u h))"
    and "fetch env request = Inr r" and "blob r = Inr b"
  shows "progress (after_fetch (snd (afterPoll env p u h))) \<noteq> []"
  using assms
  by (auto simp: afterPoll_def Let_def split: option.splits sum.splits if_splits)

lemma gvc_submit_rejected:
  "generateVideos env (videoFullPrompt prompt music) = Inl e \<Longrightarrow>
   generateVideoAndCaption fuel env prompt music userId =
     (Rejected e,
      [OnProgress ''Crafting your video prompt...'',
       OnProgress ''Sending request to video model... this can take a few minutes.'',
       GenerateVideos (videoFullPrompt prompt music),
       Settled])"
  by (simp add: generateVideoAndCaption_def)

lemma gvc_submitted:
  "generateVideos env (videoFullPrompt prompt music) = Inr h0 \<Longrightarrow>
   generateVideoAndCaption fuel env prompt music userId =
     (case fst (poll fuel env h0 0) of
        Resolved h \<Rightarrow> fst (afterPoll env prompt userId h)
      | Rejected e \<Rightarrow> Rejected e
      | Pending \<Rightarrow> Pending,
      [OnProgress ''Crafting your video prompt...'',
       OnProgress ''Sending request to video model... this can take a few minutes.'',
       GenerateVideos (videoFullPrompt prompt music)]
      @ snd (poll fuel env h0 0)
      @ (case fst (poll fuel env h0 0) of
           Resolved h \<Rightarrow> snd (afterPoll env prompt userId h) @ [Settled]
         | Rejected e \<Rightarrow> [Settled]
         | Pending \<Rightarrow> []))"
  by (cases "poll fuel env h0 0")
     (simp add: generateVideoAndCaption_def case_prod_beta split: outcome.splits)

lemma gvc_refreshed:
  "refreshed (snd (generateVideoAndCaption fuel env prompt music userId)) =
     (case generateVideos env (videoFullPrompt prompt music) of
        Inl e \<Rightarrow> []
      | Inr h0 \<Rightarrow> refreshed (snd (poll fuel env h0 0)))"
  by (cases "generateVideos env (videoFullPrompt prompt music)")
     (simp_all add: gvc_submit_rejected gvc_submitted refreshed_append afterPoll_refreshed
        split: outcome.splits)

lemma gvc_head:
  "\<exists>rest. snd (generateVideoAndCaption fuel env prompt music userId) =
     OnProgress ''Crafting your video prompt...''
     # OnProgress ''Sending request to video model... this can take a few minutes.''
     # GenerateVideos (videoFullPrompt prompt music) # rest"
  by (cases "generateVideos env (videoFullPrompt prompt music)")
     (simp_all add: gvc_submit_rejected gvc_submitted)

lemma gvc_after_settled:
  "after_settled (snd (generateVideoAndCaption fuel env prompt music userId)) = []"
  by (cases "generateVideos env (videoFullPrompt prompt music)")
     (simp_all add: gvc_submit_rejected gvc_submitted after_settled_skip poll_no_settled
        afterPoll_no_settled split: outcome.splits)

lemma gvc_settled:
  "(fst (generateVideoAndCaption fuel env prompt music userId) \<noteq> Pending) =
   (Settled \<in> set (snd (generateVideoAndCaption fuel env prompt music userId)))"
  by (cases "generateVideos env (videoFullPrompt prompt music)")
     (simp_all add: gvc_submit_rejected gvc_submitted poll_no_settled afterPoll_no_settled
        afterPoll_not_pending split: outcome.splits)

lemma after_fetch_found:
  "Fetch request \<in> set xs \<Longrightarrow> after_fetch (xs @ ys) = after_fetch xs @ ys"
proof (induction xs)
  case Nil
  then show ?case by simp
next
  case (Cons x xs)
  then show ?case by (cases x) auto
qed

lemma gvc_progress_after_fetch:
  assumes "Fetch request \<in> set (snd (generateVideoAndCaption fuel env prompt music userId))"
    and "fetch env request = Inr r" and "blob r = Inr b"
  shows "progress (after_fetch (snd (generateVideoAndCaption fuel env prompt music userId))) \<noteq> []"
proof (cases "generateVideos env (videoFullPrompt prompt music)")
  case (Inl e)
  with assms(1) show ?thesis by (simp add: gvc_submit_rejected)
next
  case (Inr h0)
  have nf: "\<And>e. e \<in> set (snd (poll fuel env h0 0)) \<Longrightarrow> \<forall>r. e \<noteq> Fetch r"
    by (rule poll_no_fetch)
  show ?thesis
  proof (cases "fst (poll fuel env h0 0)")
    case (Resolved h)
    have "Fetch request \<in> set (snd (afterPoll env prompt userId h))"
      using assms(1) Inr Resolved nf by (auto simp: gvc_submitted)
    then have inside: "Fetch request \<in> set (snd (afterPoll env prompt userId h))" .
    have "after_fetch (snd (generateVideoAndCaption fuel env prompt music userId)) =
            after_fetch (snd (afterPoll env prompt userId h)) @ [Settled]"
      using Inr Resolved inside
      by (simp add: gvc_submitted after_fetch_skip [OF nf] after_fetch_found)
    then show ?thesis
      using afterPoll_fetch [OF inside assms(2,3)] by (simp add: progress_append)
  next
    case (Rejected e)
    with assms(1) Inr nf show ?thesis by (auto simp: gvc_submitted)
  next
    case Pending
    with assms(1) Inr nf show ?thesis by (auto simp: gvc_submitted)
  qed
qed

lemmas run_defs =
  generateVideoAndCaption_def poll.simps afterPoll_def downloadLink_def videoFullPrompt_def
  progressMessages_def stub_def pending_operation_def completed_operation_def Let_def

section \<open>The handles of the poll loop\<close>

text \<open>
  Claim C1, as amended.  In every run of \<^verbatim>\<open>generateVideoAndCaption\<close>, however long it is
  observed: the first handle passed to the status refresh is the one the submit returned,
  the handle passed to refresh \<open>k + 1\<close> is the one refresh \<open>k\<close> returned, and no handle whose
  completion flag is set is ever refreshed.  The loop is left normally exactly when the
  handle of the submit, or the handle returned by some refresh of the run, has its
  completion flag set.  (The claim as written leaves out the handle of the submit.)
\<close>

theorem poll_handles_chain:
  "(let hs = refreshed (snd (generateVideoAndCaption fuel env prompt music userId)) in
      (hs \<noteq> [] \<longrightarrow> generateVideos env (videoFullPrompt prompt music) = Inr (hs ! 0)) \<and>
      (\<forall>k. Suc k < length hs \<longrightarrow> getVideosOperation env k (hs ! k) = Inr (hs ! Suc k)) \<and>
      (\<forall>h \<in> set hs. \<not> op_done h)) \<and>
   (generateVideos env (videoFullPrompt prompt music) = Inr h0 \<longrightarrow>
      ((\<exists>n h'. fst (poll n env h0 0) = Resolved h') \<longleftrightarrow>
       (op_done h0 \<or>
        (\<exists>n k h'. k < length (refreshed (snd (poll n env h0 0))) \<and>
           getVideosOperation env k (refreshed (snd (poll n env h0 0)) ! k) = Inr h' \<and>
           op_done h'))))"
proof -
  have chain: "let hs = refreshed (snd (generateVideoAndCaption fuel env prompt music userId)) in
      (hs \<noteq> [] \<longrightarrow> generateVideos env (videoFullPrompt prompt music) = Inr (hs ! 0)) \<and>
      (\<forall>k. Suc k < length hs \<longrightarrow> getVideosOperation env k (hs ! k) = Inr (hs ! Suc k)) \<and>
      (\<forall>h \<in> set hs. \<not> op_done h)"
  proof (cases "generateVideos env (videoFullPrompt prompt music)")
    case (Inl e)
    then show ?thesis by (simp add: gvc_refreshed)
  next
    case (Inr h)
    then have hs: "refreshed (snd (generateVideoAndCaption fuel env prompt music userId)) =
        refreshed (snd (poll fuel env h 0))"
      by (simp add: gvc_refreshed)
    show ?thesis
      unfolding Let_def hs
      using Inr poll_refreshed_head [of fuel env h 0] poll_refreshed_chain [of _ fuel env h 0]
        poll_refreshed_not_done [of _ fuel env h 0]
      by auto
  qed
  have "(\<exists>n h'. fst (poll n env h0 0) = Resolved h') \<longleftrightarrow>
       (op_done h0 \<or>
        (\<exists>n k h'. k < length (refreshed (snd (poll n env h0 0))) \<and>
           getVideosOperation env k (refreshed (snd (poll n env h0 0)) ! k) = Inr h' \<and>
           op_done h'))" (is "?L \<longleftrightarrow> ?R")
  proof
    assume ?L
    then obtain n h' where "fst (poll n env h0 0) = Resolved h'" by blast
    from poll_resolved_cause [OF this] show ?R by auto
  next
    assume ?R
    then show ?L
    proof
      assume "op_done h0"
      then have "fst (poll 0 env h0 0) = Resolved h0" by (simp add: poll_done)
      then show ?L by blast
    next
      assume "\<exists>n k h'. k < length (refreshed (snd (poll n env h0 0))) \<and>
           getVideosOperation env k (refreshed (snd (poll n env h0 0)) ! k) = Inr h' \<and>
           op_done h'"
      then obtain n k h' where "k < length (refreshed (snd (poll n env h0 0)))"
        and "getVideosOperation env (0 + k) (refreshed (snd (poll n env h0 0)) ! k) = Inr h'"
        and "op_done h'" by auto
      then have "fst (poll (Suc k) env h0 0) = Resolved h'"
        by (rule poll_refresh_done_resolves)
      then show ?L by blast
    qed
  qed
  with chain show ?thesis by blast
qed

subsection \<open>The stub provider's run\<close>

lemma stub_poll:
  "poll (Suc (Suc (Suc 0))) stub pending_operation 0 =
     (Resolved completed_operation,
      [OnProgress ''Warming up the pixels...'', SetTimeout 10000,
       GetVideosOperation pending_operation,
       OnProgress ''Directing the digital actors...'', SetTimeout 10000,
       GetVideosOperation (pending_operation\<lparr>name := ''operations/1+''\<rparr>),
       OnProgress ''Composing the visual symphony...'', SetTimeout 10000,
       GetVideosOperation (pending_operation\<lparr>name := ''operations/1++''\<rparr>)])"
  by (simp add: poll.simps progressMessages_def stub_def pending_operation_def
      completed_operation_def)

lemma stub_submit:
  "generateVideos stub (videoFullPrompt prompt music) = Inr pending_operation"
  by (simp add: stub_def)

lemma stub_refreshed:
  "refreshed (snd (generateVideoAndCaption (Suc (Suc (Suc 0))) stub ''a cat'' ''jazz'' None)) =
     [pending_operation, pending_operation\<lparr>name := ''operations/1+''\<rparr>,
      pending_operation\<lparr>name := ''operations/1++''\<rparr>]"
  by (simp add: gvc_refreshed stub_submit stub_poll)

text \<open>
  The stub provider: three refreshes, each passed the handle of the one before, and the
  loop is left after the third.
\<close>

theorem poll_handles_chain_witness:
  "refreshed (snd (generateVideoAndCaption (Suc (Suc (Suc 0))) stub ''a cat'' ''jazz'' None)) =
     [pending_operation, pending_operation\<lparr>name := ''operations/1+''\<rparr>,
      pending_operation\<lparr>name := ''operations/1++''\<rparr>] \<and>
   generateVideos stub (videoFullPrompt ''a cat'' ''jazz'') = Inr pending_operation \<and>
   getVideosOperation stub 0 pending_operation = Inr (pending_operation\<lparr>name := ''operations/1+''\<rparr>) \<and>
   getVideosOperation stub 1 (pending_operation\<lparr>name := ''operations/1+''\<rparr>) =
     Inr (pending_operation\<lparr>name := ''operations/1++''\<rparr>) \<and>
   \<not> op_done pending_operation \<and>
   \<not> op_done (pending_operation\<lparr>name := ''operations/1+''\<rparr>) \<and>
   \<not> op_done (pending_operation\<lparr>name := ''operations/1++''\<rparr>) \<and>
   \<not> op_done pending_operation \<and>
   (\<exists>n h'. fst (poll n stub pending_operation 0) = Resolved h')"
proof -
  let ?hs = "[pending_operation, pending_operation\<lparr>name := ''operations/1+''\<rparr>,
      pending_operation\<lparr>name := ''operations/1++''\<rparr>]"
  note inst = poll_handles_chain [of "Suc (Suc (Suc 0))" stub "''a cat''" "''jazz''" None
      pending_operation, unfolded Let_def stub_refreshed]
  have later: "\<exists>n k h'. k < length (refreshed (snd (poll n stub pending_operation 0))) \<and>
      getVideosOperation stub k (refreshed (snd (poll n stub pending_operation 0)) ! k) = Inr h' \<and>
      op_done h'"
    apply (rule exI [of _ "Suc (Suc (Suc 0))"])
    apply (rule exI [of _ "Suc (Suc 0)"])
    apply (rule exI [of _ completed_operation])
    apply (simp add: stub_poll)
    apply (simp add: stub_def completed_operation_def)
    done
  from inst have 1: "generateVideos stub (videoFullPrompt ''a cat'' ''jazz'') = Inr (?hs ! 0)" by simp
  from inst have 2: "\<forall>k. Suc k < length ?hs \<longrightarrow> getVideosOperation stub k (?hs ! k) = Inr (?hs ! Suc k)"
    by blast
  from inst have 3: "\<forall>h \<in> set ?hs. \<not> op_done h" by blast
  from inst 1 later have 4: "\<exists>n h'. fst (poll n stub pending_operation 0) = Resolved h'" by simp
  from 2 [rule_format, of 0] 2 [rule_format, of "Suc 0"] 1 3 4 show ?thesis
    by (simp add: stub_refreshed)
qed

text \<open>
  Against claim C1 as written: when the submit already returns a completed operation, the
  loop ends (the call even resolves) and no refresh has returned anything, since none was
  issued.
\<close>

theorem poll_ends_without_refresh:
  "fst (generateVideoAndCaption 0 (stub\<lparr>generateVideos := \<lambda>p. Inr completed_operation\<rparr>)
          ''a cat'' ''jazz'' None)
     = Resolved \<lparr>url = ''blob:local/1'', caption = ''Ride on! #bike''\<rparr> \<and>
   refreshed (snd (generateVideoAndCaption 0 (stub\<lparr>generateVideos := \<lambda>p. Inr completed_operation\<rparr>)
          ''a cat'' ''jazz'' None)) = []"
  by (simp add: run_defs)

text \<open>
  Claim C2.  The list of flavor strings has five elements, and the message of poll
  iteration \<open>k\<close> (counted from 0) is its element \<open>k mod 5\<close>, whatever the provider does
  and however long it takes: the run has no clock, only the fixed 10 second timer.  When
  the operation reports completion on the third refresh only, the run issues exactly the
  three refreshes, with the messages at indices 0, 1 and 2 in this order, all before the
  message that announces the fetch.
\<close>

theorem poll_progress_cycle:
  "length progressMessages = 5 \<and>
   progress (snd (poll fuel env h 0)) =
     map (\<lambda>k. progressMessages ! (k mod 5)) [0 ..< length (refreshed (snd (poll fuel env h 0)))] \<and>
   (generateVideos env (videoFullPrompt prompt music) = Inr h0 \<and> \<not> op_done h0 \<and>
    getVideosOperation env 0 h0 = Inr h1 \<and> \<not> op_done h1 \<and>
    getVideosOperation env 1 h1 = Inr h2 \<and> \<not> op_done h2 \<and>
    getVideosOperation env 2 h2 = Inr h3 \<and> op_done h3 \<and> 3 \<le> n \<longrightarrow>
    (\<exists>rest. snd (generateVideoAndCaption n env prompt music userId) =
       [OnProgress ''Crafting your video prompt...'',
        OnProgress ''Sending request to video model... this can take a few minutes.'',
        GenerateVideos (videoFullPrompt prompt music),
        OnProgress (progressMessages ! 0), SetTimeout 10000, GetVideosOperation h0,
        OnProgress (progressMessages ! 1), SetTimeout 10000, GetVideosOperation h1,
        OnProgress (progressMessages ! 2), SetTimeout 10000, GetVideosOperation h2,
        OnProgress ''Video generation complete! Fetching the file...''] @ rest \<and>
       refreshed rest = []))"
proof -
  have five: "length progressMessages = 5" by (simp add: progressMessages_def)
  have cyc: "progress (snd (poll fuel env h 0)) =
     map (\<lambda>k. progressMessages ! (k mod 5)) [0 ..< length (refreshed (snd (poll fuel env h 0)))]"
    using poll_progress [of fuel env h 0] by simp
  have scen: "\<exists>rest. snd (generateVideoAndCaption n env prompt music userId) =
       [OnProgress ''Crafting your video prompt...'',
        OnProgress ''Sending request to video model... this can take a few minutes.'',
        GenerateVideos (videoFullPrompt prompt music),
        OnProgress (progressMessages ! 0), SetTimeout 10000, GetVideosOperation h0,
        OnProgress (progressMessages ! 1), SetTimeout 10000, GetVideosOperation h1,
        OnProgress (progressMessages ! 2), SetTimeout 10000, GetVideosOperation h2,
        OnProgress ''Video generation complete! Fetching the file...''] @ rest \<and>
       refreshed rest = []"
    if sub: "generateVideos env (videoFullPrompt prompt music) = Inr h0"
      and d: "\<not> op_done h0" "\<not> op_done h1" "\<not> op_done h2" "op_done h3"
      and r: "getVideosOperation env 0 h0 = Inr h1" "getVideosOperation env 1 h1 = Inr h2"
        "getVideosOperation env 2 h2 = Inr h3"
      and n: "3 \<le> n"
  proof -
    have p3: "poll (Suc (Suc (Suc 0))) env h0 0 =
        (Resolved h3,
         [OnProgress (progressMessages ! 0), SetTimeout 10000, GetVideosOperation h0,
          OnProgress (progressMessages ! 1), SetTimeout 10000, GetVideosOperation h1,
          OnProgress (progressMessages ! 2), SetTimeout 10000, GetVideosOperation h2])"
      using d r by (simp add: poll_continues poll_done five numeral_2_eq_2)
    obtain j where "n = Suc (Suc (Suc 0)) + j" using n by (metis add.commute le_Suc_ex numeral_3_eq_3)
    moreover have "fst (poll (Suc (Suc (Suc 0))) env h0 0) \<noteq> Pending" by (simp add: p3)
    ultimately have pn: "poll n env h0 0 = poll (Suc (Suc (Suc 0))) env h0 0"
      using poll_fuel_mono by blast
    obtain tl where tl: "snd (afterPoll env prompt userId h3) =
        OnProgress ''Video generation complete! Fetching the file...'' # tl"
      using afterPoll_head by blast
    have "refreshed tl = []"
      using afterPoll_refreshed [of env prompt userId h3] by (simp add: tl)
    then have "refreshed (tl @ [Settled]) = []" by (simp add: refreshed_append)
    moreover have "snd (generateVideoAndCaption n env prompt music userId) =
       [OnProgress ''Crafting your video prompt...'',
        OnProgress ''Sending request to video model... this can take a few minutes.'',
        GenerateVideos (videoFullPrompt prompt music),
        OnProgress (progressMessages ! 0), SetTimeout 10000, GetVideosOperation h0,
        OnProgress (progressMessages ! 1), SetTimeout 10000, GetVideosOperation h1,
        OnProgress (progressMessages ! 2), SetTimeout 10000, GetVideosOperation h2,
        OnProgress ''Video generation complete! Fetching the file...''] @ (tl @ [Settled])"
      by (simp add: gvc_submitted [OF sub] pn p3 tl)
    ultimately show ?thesis by blast
  qed
  from five cyc scen show ?thesis by blast
qed

text \<open>The stub provider completes on the third refresh.\<close>

theorem poll_progress_cycle_witness:
  "progress (snd (poll (Suc (Suc (Suc 0))) stub pending_operation 0)) =
     [''Warming up the pixels...'', ''Directing the digital actors...'',
      ''Composing the visual symphony...''] \<and>
   (\<exists>rest. snd (generateVideoAndCaption 3 stub ''a cat'' ''jazz'' None) =
       [OnProgress ''Crafting your video prompt...'',
        OnProgress ''Sending request to video model... this can take a few minutes.'',
        GenerateVideos (videoFullPrompt ''a cat'' ''jazz''),
        OnProgress ''Warming up the pixels...'', SetTimeout 10000,
        GetVideosOperation pending_operation,
        OnProgress ''Directing the digital actors...'', SetTimeout 10000,
        GetVideosOperation (pending_operation\<lparr>name := ''operations/1+''\<rparr>),
        OnProgress ''Composing the visual symphony...'', SetTimeout 10000,
        GetVideosOperation (pending_operation\<lparr>name := ''operations/1++''\<rparr>),
        OnProgress ''Video generation complete! Fetching the file...''] @ rest \<and>
       refreshed rest = [])"
proof -
  have hyps: "generateVideos stub (videoFullPrompt ''a cat'' ''jazz'') = Inr pending_operation \<and>
    \<not> op_done pending_operation \<and>
    getVideosOperation stub 0 pending_operation = Inr (pending_operation\<lparr>name := ''operations/1+''\<rparr>) \<and>
    \<not> op_done (pending_operation\<lparr>name := ''operations/1+''\<rparr>) \<and>
    getVideosOperation stub 1 (pending_operation\<lparr>name := ''operations/1+''\<rparr>) =
      Inr (pending_operation\<lparr>name := ''operations/1++''\<rparr>) \<and>
    \<not> op_done (pending_operation\<lparr>name := ''operations/1++''\<rparr>) \<and>
    getVideosOperation stub 2 (pending_operation\<lparr>name := ''operations/1++''\<rparr>) = Inr completed_operation \<and>
    op_done completed_operation \<and> (3::nat) \<le> 3"
    by (simp add: stub_def pending_operation_def completed_operation_def)
  note inst = poll_progress_cycle [of "Suc (Suc (Suc 0))" stub pending_operation "''a cat''" "''jazz''"
      pending_operation "pending_operation\<lparr>name := ''operations/1+''\<rparr>"
      "pending_operation\<lparr>name := ''operations/1++''\<rparr>" completed_operation 3 None]
  from inst have a: "progress (snd (poll (Suc (Suc (Suc 0))) stub pending_operation 0)) =
     map (\<lambda>k. progressMessages ! (k mod 5))
       [0 ..< length (refreshed (snd (poll (Suc (Suc (Suc 0))) stub pending_operation 0)))]"
    by blast
  have b: "map (\<lambda>k. progressMessages ! (k mod 5))
       [0 ..< length (refreshed (snd (poll (Suc (Suc (Suc 0))) stub pending_operation 0)))] =
     [''Warming up the pixels...'', ''Directing the digital actors...'',
      ''Composing the visual symphony...'']"
    by (simp add: stub_poll progressMessages_def upt_rec [of 0] upt_rec [of "Suc 0"] upt_rec [of "Suc (Suc 0)"])
  have msgs: "progressMessages ! 0 = ''Warming up the pixels...''"
    "progressMessages ! 1 = ''Directing the digital actors...''"
    "progressMessages ! 2 = ''Composing the visual symphony...''"
    by (simp_all add: progressMessages_def)
  from inst hyps have c: "\<exists>rest. snd (generateVideoAndCaption 3 stub ''a cat'' ''jazz'' None) =
       [OnProgress ''Crafting your video prompt...'',
        OnProgress ''Sending request to video model... this can take a few minutes.'',
        GenerateVideos (videoFullPrompt ''a cat'' ''jazz''),
        OnProgress (progressMessages ! 0), SetTimeout 10000,
        GetVideosOperation pending_operation,
        OnProgress (progressMessages ! 1), SetTimeout 10000,
        GetVideosOperation (pending_operation\<lparr>name := ''operations/1+''\<rparr>),
        OnProgress (progressMessages ! 2), SetTimeout 10000,
        GetVideosOperation (pending_operation\<lparr>name := ''operations/1++''\<rparr>),
        OnProgress ''Video generation complete! Fetching the file...''] @ rest \<and>
       refreshed rest = []"
    by blast
  from a b c show ?thesis unfolding msgs by simp
qed

section \<open>Failures of the video workflow\<close>

text \<open>
  Claim C3.  When the loop ends with a completed operation whose payload has no result
  locator (any step of the optional chain absent, or the locator empty), the call rejects
  with the "no result" error and no fetch is issued.
\<close>

theorem missing_link_rejects:
  assumes "generateVideos env (videoFullPrompt prompt music) = Inr h0"
    and "fst (poll fuel env h0 0) = Resolved h"
    and "\<not> truthy (downloadLink h)"
  shows "op_done h \<and>
    fst (generateVideoAndCaption fuel env prompt music userId) =
      Rejected (Error ''Video generation failed or returned no link.'') \<and>
    after_fetch (snd (generateVideoAndCaption fuel env prompt music userId)) = [] \<and>
    (\<forall>request. Fetch request \<notin> set (snd (generateVideoAndCaption fuel env prompt music userId)))"
proof -
  have "op_done h" using assms(2) by (rule poll_resolved_done)
  moreover have out: "fst (generateVideoAndCaption fuel env prompt music userId) =
      Rejected (Error ''Video generation failed or returned no link.'')"
    using assms by (simp add: gvc_submitted afterPoll_no_link)
  moreover have nf: "\<forall>request. Fetch request \<notin> set (snd (generateVideoAndCaption fuel env prompt music userId))"
    using assms poll_no_fetch [of _ fuel env h0 0]
    by (auto simp: gvc_submitted afterPoll_no_link)
  moreover have "after_fetch (snd (generateVideoAndCaption fuel env prompt music userId)) = []"
  proof -
    have "\<And>e. e \<in> set (snd (generateVideoAndCaption fuel env prompt music userId)) \<Longrightarrow>
        \<forall>r. e \<noteq> Fetch r"
      using nf by blast
    from after_fetch_skip [OF this, of _ "[]"] show ?thesis by simp
  qed
  ultimately show ?thesis by blast
qed

text \<open>A completed operation with an empty list of generated videos.\<close>

theorem missing_link_rejects_witness:
  "fst (generateVideoAndCaption 0
      (stub\<lparr>generateVideos := \<lambda>p. Inr \<lparr>name = ''operations/2'', op_done = True,
          response = Some \<lparr>generatedVideos = Some []\<rparr>\<rparr>\<rparr>) ''a cat'' ''jazz'' None) =
     Rejected (Error ''Video generation failed or returned no link.'') \<and>
   after_fetch (snd (generateVideoAndCaption 0
      (stub\<lparr>generateVideos := \<lambda>p. Inr \<lparr>name = ''operations/2'', op_done = True,
          response = Some \<lparr>generatedVideos = Some []\<rparr>\<rparr>\<rparr>) ''a cat'' ''jazz'' None)) = []"
proof -
  let ?h = "\<lparr>name = ''operations/2'', op_done = True, response = Some \<lparr>generatedVideos = Some []\<rparr>\<rparr>"
  let ?env = "stub\<lparr>generateVideos := \<lambda>p. Inr ?h\<rparr>"
  have 1: "generateVideos ?env (videoFullPrompt ''a cat'' ''jazz'') = Inr ?h" by simp
  have 2: "fst (poll 0 ?env ?h 0) = Resolved ?h" by (simp add: poll.simps)
  have 3: "\<not> truthy (downloadLink ?h)" by (simp add: downloadLink_def)
  from missing_link_rejects [OF 1 2 3, of None] show ?thesis by blast
qed

text \<open>
  Claim C5.  When the job-creation call rejects, the whole call rejects with that same
  error; the callback has been invoked by then (twice, the second time with the
  submitting-request message), and no refresh has been issued.
\<close>

theorem submit_rejection_propagates:
  assumes "generateVideos env (videoFullPrompt prompt music) = Inl e"
  shows "fst (generateVideoAndCaption fuel env prompt music userId) = Rejected e \<and>
    progress (snd (generateVideoAndCaption fuel env prompt music userId)) =
      [''Crafting your video prompt...'',
       ''Sending request to video model... this can take a few minutes.''] \<and>
    refreshed (snd (generateVideoAndCaption fuel env prompt music userId)) = []"
  using assms by (simp add: gvc_submit_rejected)

theorem submit_rejection_propagates_witness:
  "fst (generateVideoAndCaption 7 (stub\<lparr>generateVideos := \<lambda>p. Inl (Error ''quota exceeded'')\<rparr>)
      ''a cat'' ''jazz'' (Some ''mock-user-123'')) = Rejected (Error ''quota exceeded'') \<and>
   progress (snd (generateVideoAndCaption 7 (stub\<lparr>generateVideos := \<lambda>p. Inl (Error ''quota exceeded'')\<rparr>)
      ''a cat'' ''jazz'' (Some ''mock-user-123''))) =
      [''Crafting your video prompt...'',
       ''Sending request to video model... this can take a few minutes.''] \<and>
   refreshed (snd (generateVideoAndCaption 7 (stub\<lparr>generateVideos := \<lambda>p. Inl (Error ''quota exceeded'')\<rparr>)
      ''a cat'' ''jazz'' (Some ''mock-user-123''))) = []"
proof -
  have "generateVideos (stub\<lparr>generateVideos := \<lambda>p. Inl (Error ''quota exceeded'')\<rparr>)
      (videoFullPrompt ''a cat'' ''jazz'') = Inl (Error ''quota exceeded'')" by simp
  from submit_rejection_propagates [OF this] show ?thesis .
qed

section \<open>The progress callback\<close>

text \<open>
  Claim C6, as amended.  Every run begins with the two submission messages, so the
  callback has been invoked twice before the job is submitted and before any poll.  In
  every run in which the fetch of the artifact and the reading of its body succeed, the
  callback is invoked after the fetch has begun.  The promise settles as the last thing a
  run does, so the callback is never invoked afterwards.  (The claim as written promises
  an invocation after the fetch in every run; a fetch that rejects ends the run.)
\<close>

theorem progress_calls:
  "(\<exists>rest. snd (generateVideoAndCaption fuel env prompt music userId) =
      OnProgress ''Crafting your video prompt...''
      # OnProgress ''Sending request to video model... this can take a few minutes.''
      # GenerateVideos (videoFullPrompt prompt music) # rest) \<and>
   (\<forall>request r b.
      Fetch request \<in> set (snd (generateVideoAndCaption fuel env prompt music userId)) \<longrightarrow>
      fetch env request = Inr r \<longrightarrow> blob r = Inr b \<longrightarrow>
      progress (after_fetch (snd (generateVideoAndCaption fuel env prompt music userId))) \<noteq> []) \<and>
   ((fst (generateVideoAndCaption fuel env prompt music userId) \<noteq> Pending) =
      (Settled \<in> set (snd (generateVideoAndCaption fuel env prompt music userId)))) \<and>
   after_settled (snd (generateVideoAndCaption fuel env prompt music userId)) = [] \<and>
   progress (after_settled (snd (generateVideoAndCaption fuel env prompt music userId))) = []"
  using gvc_head [of fuel env prompt music userId]
    gvc_progress_after_fetch [of _ fuel env prompt music userId]
    gvc_settled [of fuel env prompt music userId]
    gvc_after_settled [of fuel env prompt music userId]
  by simp

text \<open>
  Against claim C6 as written: the provider's operation is complete at once and the fetch
  of the artifact rejects.  The fetch has begun, the call rejects, and the callback is
  not invoked after the fetch.
\<close>

theorem no_progress_after_failed_fetch:
  "fst (generateVideoAndCaption 0
      (stub\<lparr>generateVideos := \<lambda>p. Inr completed_operation,
            fetch := \<lambda>request. Inl (Error ''network down'')\<rparr>) ''a cat'' ''jazz'' None) =
     Rejected (Error ''network down'') \<and>
   Fetch ''https://videos.example/v1?alt=media&key=KEY'' \<in> set (snd (generateVideoAndCaption 0
      (stub\<lparr>generateVideos := \<lambda>p. Inr completed_operation,
            fetch := \<lambda>request. Inl (Error ''network down'')\<rparr>) ''a cat'' ''jazz'' None)) \<and>
   progress (after_fetch (snd (generateVideoAndCaption 0
      (stub\<lparr>generateVideos := \<lambda>p. Inr completed_operation,
            fetch := \<lambda>request. Inl (Error ''network down'')\<rparr>) ''a cat'' ''jazz'' None))) = []"
  by (simp add: run_defs)

lemma stub_video_run:
  "fst (generateVideoAndCaption (Suc (Suc (Suc 0))) stub ''a cat'' ''jazz'' None) =
     Resolved \<lparr>url = ''blob:local/1'', caption = ''Ride on! #bike''\<rparr> \<and>
   Fetch ''https://videos.example/v1?alt=media&key=KEY''
     \<in> set (snd (generateVideoAndCaption (Suc (Suc (Suc 0))) stub ''a cat'' ''jazz'' None)) \<and>
   progress (after_fetch (snd (generateVideoAndCaption (Suc (Suc (Suc 0))) stub ''a cat'' ''jazz'' None))) =
     [''Generating a catchy caption...'', ''Done!'']"
  by (simp add: run_defs)

text \<open>The stub provider: two messages follow the fetch, and the run is settled.\<close>

theorem progress_calls_witness:
  "Fetch ''https://videos.example/v1?alt=media&key=KEY''
     \<in> set (snd (generateVideoAndCaption (Suc (Suc (Suc 0))) stub ''a cat'' ''jazz'' None)) \<and>
   fetch stub ''https://videos.example/v1?alt=media&key=KEY'' = Inr (Response (Inr ''video-bytes'')) \<and>
   blob (Response (Inr ''video-bytes'')) = Inr ''video-bytes'' \<and>
   progress (after_fetch (snd (generateVideoAndCaption (Suc (Suc (Suc 0))) stub ''a cat'' ''jazz'' None))) \<noteq> [] \<and>
   Settled \<in> set (snd (generateVideoAndCaption (Suc (Suc (Suc 0))) stub ''a cat'' ''jazz'' None)) \<and>
   progress (after_settled (snd (generateVideoAndCaption (Suc (Suc (Suc 0))) stub ''a cat'' ''jazz'' None))) = []"
proof -
  note inst = progress_calls [of "Suc (Suc (Suc 0))" stub "''a cat''" "''jazz''" None]
  have f: "fetch stub ''https://videos.example/v1?alt=media&key=KEY'' = Inr (Response (Inr ''video-bytes''))"
    by (simp add: stub_def)
  have b: "blob (Response (Inr ''video-bytes'')) = Inr ''video-bytes''" by simp
  have np: "fst (generateVideoAndCaption (Suc (Suc (Suc 0))) stub ''a cat'' ''jazz'' None) \<noteq> Pending"
    using stub_video_run by simp
  from inst stub_video_run f b
  have 1: "progress (after_fetch (snd (generateVideoAndCaption (Suc (Suc (Suc 0))) stub ''a cat'' ''jazz'' None))) \<noteq> []"
    by blast
  from inst np
  have 2: "Settled \<in> set (snd (generateVideoAndCaption (Suc (Suc (Suc 0))) stub ''a cat'' ''jazz'' None))"
    by blast
  from inst
  have 3: "progress (after_settled (snd (generateVideoAndCaption (Suc (Suc (Suc 0))) stub ''a cat'' ''jazz'' None))) = []"
    by blast
  from stub_video_run f b 1 2 3 show ?thesis by blast
qed

section \<open>Properties of the image workflow\<close>

lemma first_rejection_None: "(first_rejection bs = None) = (\<forall>e. Inl e \<notin> set bs)"
  by (induction bs rule: first_rejection.induct) auto

lemma first_rejection_Some: "first_rejection bs = Some e \<Longrightarrow> Inl e \<in> set bs"
  by (induction bs rule: first_rejection.induct) auto

lemma fulfilled_length: "\<forall>e. Inl e \<notin> set bs \<Longrightarrow> length (fulfilled bs) = length bs"
  by (induction bs rule: fulfilled.induct) auto

lemma fulfilled_nth:
  "\<forall>e. Inl e \<notin> set bs \<Longrightarrow> i < length bs \<Longrightarrow> bs ! i = Inr (fulfilled bs ! i)"
proof (induction bs arbitrary: i rule: fulfilled.induct)
  case 1
  then show ?case by simp
next
  case (2 e bs)
  then show ?case by auto
next
  case (3 r bs)
  then show ?case by (cases i) auto
qed

text \<open>The callbacks of a call, in the order of their creation.\<close>

lemma branches_eq:
  "map (\<lambda>(i, imageBytes). (i, caption_branch env p i imageBytes)) (enumerate 0 imgs) =
   map (\<lambda>i. (i, caption_branch env p i (imgs ! i))) [0 ..< length imgs]"
  by (rule nth_equalityI) (simp_all add: nth_enumerate_eq)

lemma arrivals_set:
  "set (map (snd \<circ> snd) (sort_key (\<lambda>(i, b). latency env i)
      (map (\<lambda>i. (i, caption_branch env p i (imgs ! i))) [0 ..< length imgs]))) =
   (\<lambda>i. snd (caption_branch env p i (imgs ! i))) ` {0 ..< length imgs}"
  by (simp add: image_image)

lemma gic_batch_rejected:
  "generateImages env (imageFullPrompt prompt textOverlay) variations = Inl e \<Longrightarrow>
   generateImagesAndCaptions env prompt textOverlay variations userId =
     (Rejected e, [GenerateImages (imageFullPrompt prompt textOverlay) variations])"
  by (simp add: generateImagesAndCaptions_def)

lemma gic_outcome:
  assumes "generateImages env (imageFullPrompt prompt textOverlay) variations = Inr imgs"
  shows "fst (generateImagesAndCaptions env prompt textOverlay variations userId) =
     promise_all
       (map (\<lambda>i. snd (caption_branch env prompt i (imgs ! i))) [0 ..< length imgs])
       (map (snd \<circ> snd) (sort_key (\<lambda>(i, b). latency env i)
          (map (\<lambda>i. (i, caption_branch env prompt i (imgs ! i))) [0 ..< length imgs])))"
  using assms by (simp add: generateImagesAndCaptions_def Let_def branches_eq comp_def)

lemma caption_branch_request:
  "fst (caption_branch env prompt i b) = GenerateContent (imageCaptionPrompt prompt)"
  by (simp add: caption_branch_def Let_def)

lemma caption_branch_Inl:
  "(Inl e = snd (caption_branch env prompt i b)) =
   (generateContent env i (imageCaptionPrompt prompt) = Inl e)"
  by (simp add: caption_branch_def Let_def split: sum.splits) auto

lemma caption_branch_Inr:
  "(snd (caption_branch env prompt i b) = Inr r) =
   (generateContent env i (imageCaptionPrompt prompt) = Inr (caption r) \<and>
    url r = ''data:image/jpeg;base64,'' @ b)"
  by (cases r) (auto simp: caption_branch_def Let_def split: sum.splits)

lemma gic_rejected_cause:
  assumes "generateImages env (imageFullPrompt prompt textOverlay) variations = Inr imgs"
    and "i < length imgs" and "generateContent env i (imageCaptionPrompt prompt) = Inl e"
  shows "\<exists>e' j. j < length imgs \<and> generateContent env j (imageCaptionPrompt prompt) = Inl e' \<and>
     fst (generateImagesAndCaptions env prompt textOverlay variations userId) = Rejected e'"
proof -
  let ?arr = "map (snd \<circ> snd) (sort_key (\<lambda>(i, b). latency env i)
          (map (\<lambda>i. (i, caption_branch env prompt i (imgs ! i))) [0 ..< length imgs]))"
  have "Inl e \<in> set ?arr"
    unfolding arrivals_set using assms(2,3) by (auto simp: image_iff caption_branch_Inl)
  then have "first_rejection ?arr \<noteq> None" by (simp add: first_rejection_None) blast
  then obtain e' where e': "first_rejection ?arr = Some e'" by blast
  then have "Inl e' \<in> set ?arr" by (rule first_rejection_Some)
  then obtain j where "j < length imgs" "generateContent env j (imageCaptionPrompt prompt) = Inl e'"
    unfolding arrivals_set by (auto simp: caption_branch_Inl)
  moreover have "fst (generateImagesAndCaptions env prompt textOverlay variations userId) = Rejected e'"
    using e' by (simp add: gic_outcome [OF assms(1)] promise_all_def)
  ultimately show ?thesis by blast
qed

lemma gic_resolved:
  assumes "generateImages env (imageFullPrompt prompt textOverlay) variations = Inr imgs"
    and "\<forall>i < length imgs. \<exists>t. generateContent env i (imageCaptionPrompt prompt) = Inr t"
  shows "\<exists>rs. fst (generateImagesAndCaptions env prompt textOverlay variations userId) = Resolved rs \<and>
     length rs = length imgs \<and>
     (\<forall>i < length imgs.
        url (rs ! i) = ''data:image/jpeg;base64,'' @ imgs ! i \<and>
        generateContent env i (imageCaptionPrompt prompt) = Inr (caption (rs ! i)))"
proof -
  let ?bs = "map (\<lambda>i. snd (caption_branch env prompt i (imgs ! i))) [0 ..< length imgs]"
  let ?arr = "map (snd \<circ> snd) (sort_key (\<lambda>(i, b). latency env i)
          (map (\<lambda>i. (i, caption_branch env prompt i (imgs ! i))) [0 ..< length imgs]))"
  have ok: "\<forall>e. Inl e \<notin> set ?bs"
    using assms(2) by (auto simp: caption_branch_Inl)
  then have "\<forall>e. Inl e \<notin> set ?arr"
    unfolding arrivals_set by (auto simp: image_iff)
  then have "first_rejection ?arr = None" using first_rejection_None [of ?arr] by blast
  then have res: "fst (generateImagesAndCaptions env prompt textOverlay variations userId) =
      Resolved (fulfilled ?bs)"
    by (simp add: gic_outcome [OF assms(1)] promise_all_def)
  have len: "length (fulfilled ?bs) = length imgs"
    using fulfilled_length [OF ok] by simp
  have "url (fulfilled ?bs ! i) = ''data:image/jpeg;base64,'' @ imgs ! i \<and>
        generateContent env i (imageCaptionPrompt prompt) = Inr (caption (fulfilled ?bs ! i))"
    if "i < length imgs" for i
  proof -
    have "?bs ! i = Inr (fulfilled ?bs ! i)"
      using fulfilled_nth [OF ok, of i] that by simp
    then have "snd (caption_branch env prompt i (imgs ! i)) = Inr (fulfilled ?bs ! i)"
      using that by simp
    then show ?thesis by (simp add: caption_branch_Inr)
  qed
  with res len show ?thesis by blast
qed

lemma gic_resolved_only:
  assumes "fst (generateImagesAndCaptions env prompt textOverlay variations userId) = Resolved rs"
  shows "\<exists>imgs. generateImages env (imageFullPrompt prompt textOverlay) variations = Inr imgs \<and>
     (\<forall>i < length imgs. \<exists>t. generateContent env i (imageCaptionPrompt prompt) = Inr t)"
proof (cases "generateImages env (imageFullPrompt prompt textOverlay) variations")
  case (Inl e)
  with assms show ?thesis by (simp add: gic_batch_rejected)
next
  case (Inr imgs)
  have "\<exists>t. generateContent env i (imageCaptionPrompt prompt) = Inr t" if "i < length imgs" for i
  proof (cases "generateContent env i (imageCaptionPrompt prompt)")
    case (Inl e)
    from gic_rejected_cause [OF \<open>generateImages env (imageFullPrompt prompt textOverlay) variations = Inr imgs\<close> that Inl, of userId] assms
    show ?thesis by auto
  next
    case (Inr t)
    then show ?thesis by blast
  qed
  with Inr show ?thesis by blast
qed

lemma batch_requests_append: "batch_requests (xs @ ys) = batch_requests xs @ batch_requests ys"
  by (induction xs rule: batch_requests.induct) simp_all

lemma caption_requests_append: "caption_requests (xs @ ys) = caption_requests xs @ caption_requests ys"
  by (induction xs rule: caption_requests.induct) simp_all

lemma arrive_requests:
  "batch_requests (arrive env prompt userId bs) = [] \<and>
   caption_requests (arrive env prompt userId bs) = []"
  by (induction env prompt userId bs rule: arrive.induct)
     (simp_all add: batch_requests_append caption_requests_append Let_def split: option.splits)

lemma caption_requests_issued:
  "caption_requests (map (\<lambda>i. fst (caption_branch env prompt i (imgs ! i))) ks) =
     replicate (length ks) (imageCaptionPrompt prompt) \<and>
   batch_requests (map (\<lambda>i. fst (caption_branch env prompt i (imgs ! i))) ks) = []"
  by (induction ks) (simp_all add: caption_branch_request)

lemma gic_requests:
  "batch_requests (snd (generateImagesAndCaptions env prompt textOverlay variations userId)) =
     [(imageFullPrompt prompt textOverlay, variations)] \<and>
   caption_requests (snd (generateImagesAndCaptions env prompt textOverlay variations userId)) =
     replicate
       (case generateImages env (imageFullPrompt prompt textOverlay) variations of
          Inl e \<Rightarrow> 0 | Inr imgs \<Rightarrow> length imgs)
       (imageCaptionPrompt prompt)"
  by (cases "generateImages env (imageFullPrompt prompt textOverlay) variations")
     (simp_all add: generateImagesAndCaptions_def Let_def batch_requests_append
        caption_requests_append arrive_requests caption_requests_issued branches_eq comp_def)

text \<open>
  The provider is asked for captions at the caption prompt only, and for images at the
  full prompt and the variation count only: a provider that answers these requests alike
  gives the same run.
\<close>

lemma arrive_provider:
  "recorder env' = recorder env \<Longrightarrow> arrive env' prompt userId bs = arrive env prompt userId bs"
  by (induction env prompt userId bs rule: arrive.induct)
     (simp_all add: Let_def split: option.splits)

lemma arrive_captions:
  "arrive (env\<lparr>generateContent := g\<rparr>) prompt userId bs = arrive env prompt userId bs"
  by (rule arrive_provider) simp

lemma arrive_batch:
  "arrive (env\<lparr>generateImages := g\<rparr>) prompt userId bs = arrive env prompt userId bs"
  by (rule arrive_provider) simp

lemma caption_branch_same_answers:
  "g i (imageCaptionPrompt prompt) = generateContent env i (imageCaptionPrompt prompt) \<Longrightarrow>
   caption_branch (env\<lparr>generateContent := g\<rparr>) prompt i b = caption_branch env prompt i b"
  by (simp add: caption_branch_def Let_def)

lemma caption_branch_batch:
  "caption_branch (env\<lparr>generateImages := g\<rparr>) prompt i b = caption_branch env prompt i b"
  by (simp add: caption_branch_def Let_def)

lemma gic_same_captions:
  assumes "\<forall>i. g i (imageCaptionPrompt prompt) = generateContent env i (imageCaptionPrompt prompt)"
  shows "generateImagesAndCaptions (env\<lparr>generateContent := g\<rparr>) prompt textOverlay variations userId =
    generateImagesAndCaptions env prompt textOverlay variations userId"
  using assms
  by (simp add: generateImagesAndCaptions_def Let_def caption_branch_same_answers arrive_captions
      split: sum.splits)

lemma gic_same_batch:
  assumes "g (imageFullPrompt prompt textOverlay) variations =
    generateImages env (imageFullPrompt prompt textOverlay) variations"
  shows "generateImagesAndCaptions (env\<lparr>generateImages := g\<rparr>) prompt textOverlay variations userId =
    generateImagesAndCaptions env prompt textOverlay variations userId"
  using assms
  by (simp add: generateImagesAndCaptions_def Let_def caption_branch_batch arrive_batch
      split: sum.splits)

lemma gic_captions:
  assumes "generateImages env (imageFullPrompt prompt textOverlay) variations = Inr imgs"
    and "\<forall>i < length imgs. generateContent env i (imageCaptionPrompt prompt) = Inr (texts i)"
  shows "\<exists>rs. fst (generateImagesAndCaptions env prompt textOverlay variations userId) = Resolved rs \<and>
     map caption rs = map texts [0 ..< length imgs]"
proof -
  have "\<forall>i < length imgs. \<exists>t. generateContent env i (imageCaptionPrompt prompt) = Inr t"
    using assms(2) by blast
  from gic_resolved [OF assms(1) this, of userId]
  obtain rs where rs: "fst (generateImagesAndCaptions env prompt textOverlay variations userId) = Resolved rs"
    "length rs = length imgs"
    "\<forall>i < length imgs. generateContent env i (imageCaptionPrompt prompt) = Inr (caption (rs ! i))"
    by blast
  have "map caption rs = map texts [0 ..< length imgs]"
  proof (rule nth_equalityI)
    show "length (map caption rs) = length (map texts [0 ..< length imgs])" using rs(2) by simp
  next
    fix i assume "i < length (map caption rs)"
    then have i: "i < length imgs" using rs(2) by simp
    with rs(3) assms(2) have "caption (rs ! i) = texts i" by auto
    with i rs(2) show "map caption rs ! i = map texts [0 ..< length imgs] ! i" by simp
  qed
  with rs(1) show ?thesis by blast
qed

text \<open>
  Claim C9.  The full prompt is the prompt itself when the overlay is empty, and the
  prompt followed by the overlay instruction otherwise; the caption prompt is built from
  the prompt alone.  A run issues exactly one batch request, with the full prompt and the
  variation count, and one caption request per returned image, each with the caption
  prompt.  These are the arguments the provider is really called with: the run is the
  same for every provider that answers the batch request at the full prompt alike, and
  for every provider that answers the caption requests at the caption prompt alike,
  whatever it would answer to any other prompt; and the caption of the \<open>i\<close>-th entry is
  the answer to the \<open>i\<close>-th request at the caption prompt.
\<close>

theorem image_requests:
  \<open>imageFullPrompt prompt textOverlay =
     (if textOverlay = [] then prompt
      else prompt @ '', with the text "'' @ textOverlay
           @ ''" clearly visible and elegantly integrated.'') \<and>
   imageCaptionPrompt prompt =
     ''Generate a short, catchy social media caption for an image about: "''
     @ prompt @ ''". Include 3-5 relevant hashtags.'' \<and>
   batch_requests (snd (generateImagesAndCaptions env prompt textOverlay variations userId)) =
     [(imageFullPrompt prompt textOverlay, variations)] \<and>
   (\<forall>c \<in> set (caption_requests
        (snd (generateImagesAndCaptions env prompt textOverlay variations userId))).
      c = imageCaptionPrompt prompt) \<and>
   length (caption_requests
        (snd (generateImagesAndCaptions env prompt textOverlay variations userId))) =
     (case generateImages env (imageFullPrompt prompt textOverlay) variations of
        Inl e \<Rightarrow> 0 | Inr imgs \<Rightarrow> length imgs) \<and>
   (\<forall>g. g (imageFullPrompt prompt textOverlay) variations =
          generateImages env (imageFullPrompt prompt textOverlay) variations \<longrightarrow>
      generateImagesAndCaptions (env\<lparr>generateImages := g\<rparr>) prompt textOverlay variations userId =
      generateImagesAndCaptions env prompt textOverlay variations userId) \<and>
   (\<forall>g. (\<forall>i. g i (imageCaptionPrompt prompt) = generateContent env i (imageCaptionPrompt prompt)) \<longrightarrow>
      generateImagesAndCaptions (env\<lparr>generateContent := g\<rparr>) prompt textOverlay variations userId =
      generateImagesAndCaptions env prompt textOverlay variations userId) \<and>
   (\<forall>imgs texts.
      generateImages env (imageFullPrompt prompt textOverlay) variations = Inr imgs \<and>
      (\<forall>i < length imgs. generateContent env i (imageCaptionPrompt prompt) = Inr (texts i)) \<longrightarrow>
      (\<exists>rs. fst (generateImagesAndCaptions env prompt textOverlay variations userId) = Resolved rs \<and>
         map caption rs = map texts [0 ..< length imgs]))\<close>
proof -
  have names: \<open>imageFullPrompt prompt textOverlay =
     (if textOverlay = [] then prompt
      else prompt @ '', with the text "'' @ textOverlay
           @ ''" clearly visible and elegantly integrated.'') \<and>
   imageCaptionPrompt prompt =
     ''Generate a short, catchy social media caption for an image about: "''
     @ prompt @ ''". Include 3-5 relevant hashtags.''\<close>
    by (simp add: imageFullPrompt_def imageCaptionPrompt_def)
  have log: "batch_requests (snd (generateImagesAndCaptions env prompt textOverlay variations userId)) =
     [(imageFullPrompt prompt textOverlay, variations)] \<and>
   (\<forall>c \<in> set (caption_requests
        (snd (generateImagesAndCaptions env prompt textOverlay variations userId))).
      c = imageCaptionPrompt prompt) \<and>
   length (caption_requests
        (snd (generateImagesAndCaptions env prompt textOverlay variations userId))) =
     (case generateImages env (imageFullPrompt prompt textOverlay) variations of
        Inl e \<Rightarrow> 0 | Inr imgs \<Rightarrow> length imgs)"
    by (simp add: gic_requests)
  have batch: "\<forall>g. g (imageFullPrompt prompt textOverlay) variations =
          generateImages env (imageFullPrompt prompt textOverlay) variations \<longrightarrow>
      generateImagesAndCaptions (env\<lparr>generateImages := g\<rparr>) prompt textOverlay variations userId =
      generateImagesAndCaptions env prompt textOverlay variations userId"
    using gic_same_batch by blast
  have caps: "\<forall>g. (\<forall>i. g i (imageCaptionPrompt prompt) = generateContent env i (imageCaptionPrompt prompt)) \<longrightarrow>
      generateImagesAndCaptions (env\<lparr>generateContent := g\<rparr>) prompt textOverlay variations userId =
      generateImagesAndCaptions env prompt textOverlay variations userId"
    using gic_same_captions by blast
  have dep: "\<forall>imgs texts.
      generateImages env (imageFullPrompt prompt textOverlay) variations = Inr imgs \<and>
      (\<forall>i < length imgs. generateContent env i (imageCaptionPrompt prompt) = Inr (texts i)) \<longrightarrow>
      (\<exists>rs. fst (generateImagesAndCaptions env prompt textOverlay variations userId) = Resolved rs \<and>
         map caption rs = map texts [0 ..< length imgs])"
  proof (intro allI impI)
    fix imgs texts
    assume a: "generateImages env (imageFullPrompt prompt textOverlay) variations = Inr imgs \<and>
      (\<forall>i < length imgs. generateContent env i (imageCaptionPrompt prompt) = Inr (texts i))"
    then have 1: "generateImages env (imageFullPrompt prompt textOverlay) variations = Inr imgs"
      and 2: "\<forall>i < length imgs. generateContent env i (imageCaptionPrompt prompt) = Inr (texts i)"
      by simp_all
    from gic_captions [OF 1 2]
    show "\<exists>rs. fst (generateImagesAndCaptions env prompt textOverlay variations userId) = Resolved rs \<and>
         map caption rs = map texts [0 ..< length imgs]" .
  qed
  from names have n1: \<open>imageFullPrompt prompt textOverlay =
     (if textOverlay = [] then prompt
      else prompt @ '', with the text "'' @ textOverlay
           @ ''" clearly visible and elegantly integrated.'')\<close>
    and n2: \<open>imageCaptionPrompt prompt =
     ''Generate a short, catchy social media caption for an image about: "''
     @ prompt @ ''". Include 3-5 relevant hashtags.''\<close>
    by simp_all
  from log have l1: "batch_requests (snd (generateImagesAndCaptions env prompt textOverlay variations userId)) =
     [(imageFullPrompt prompt textOverlay, variations)]"
    and l2: "\<forall>c \<in> set (caption_requests
        (snd (generateImagesAndCaptions env prompt textOverlay variations userId))).
      c = imageCaptionPrompt prompt"
    and l3: "length (caption_requests
        (snd (generateImagesAndCaptions env prompt textOverlay variations userId))) =
     (case generateImages env (imageFullPrompt prompt textOverlay) variations of
        Inl e \<Rightarrow> 0 | Inr imgs \<Rightarrow> length imgs)"
    by simp_all
  show ?thesis by (intro conjI n1 n2 l1 l2 l3 batch caps dep)
qed

text \<open>
  The stub provider with the overlay \<^verbatim>\<open>Sale\<close>, and two providers that answer only the
  requests the run makes: two images, two caption requests, the same run.
\<close>

theorem image_requests_witness:
  \<open>batch_requests (snd (generateImagesAndCaptions stub ''a red bicycle'' ''Sale'' 2 None)) =
     [(''a red bicycle, with the text "Sale" clearly visible and elegantly integrated.'', 2)] \<and>
   caption_requests (snd (generateImagesAndCaptions stub ''a red bicycle'' ''Sale'' 2 None)) =
     [''Generate a short, catchy social media caption for an image about: "a red bicycle". Include 3-5 relevant hashtags.'',
      ''Generate a short, catchy social media caption for an image about: "a red bicycle". Include 3-5 relevant hashtags.''] \<and>
   generateImagesAndCaptions
     (stub\<lparr>generateImages := \<lambda>p n.
        if p = ''a red bicycle, with the text "Sale" clearly visible and elegantly integrated.'' \<and> n = 2
        then Inr [''AAAA'', ''BBBB''] else Inl (Error ''not asked'')\<rparr>)
     ''a red bicycle'' ''Sale'' 2 None =
   generateImagesAndCaptions stub ''a red bicycle'' ''Sale'' 2 None \<and>
   generateImagesAndCaptions
     (stub\<lparr>generateContent := \<lambda>i p.
        if p = ''Generate a short, catchy social media caption for an image about: "a red bicycle". Include 3-5 relevant hashtags.''
        then Inr ''Ride on! #bike'' else Inl (Error ''not asked'')\<rparr>)
     ''a red bicycle'' ''Sale'' 2 None =
   generateImagesAndCaptions stub ''a red bicycle'' ''Sale'' 2 None \<and>
   (\<exists>rs. fst (generateImagesAndCaptions stub ''a red bicycle'' ''Sale'' 2 None) = Resolved rs \<and>
      map caption rs = [''Ride on! #bike'', ''Ride on! #bike''])\<close>
proof -
  note inst = image_requests [where env = stub and prompt = "''a red bicycle''"
      and textOverlay = "''Sale''" and variations = 2 and userId = None]
  from inst have fp: \<open>imageFullPrompt ''a red bicycle'' ''Sale'' =
      ''a red bicycle, with the text "Sale" clearly visible and elegantly integrated.''\<close>
    by simp
  from inst have cp: \<open>imageCaptionPrompt ''a red bicycle'' =
      ''Generate a short, catchy social media caption for an image about: "a red bicycle". Include 3-5 relevant hashtags.''\<close>
    by simp
  have imgs: "generateImages stub (imageFullPrompt ''a red bicycle'' ''Sale'') 2 = Inr [''AAAA'', ''BBBB'']"
    by (simp add: stub_def)
  have texts: "\<forall>i < length [''AAAA'', ''BBBB''].
      generateContent stub i (imageCaptionPrompt ''a red bicycle'') = Inr ((\<lambda>i. ''Ride on! #bike'') i)"
    by (simp add: stub_def)
  from inst have 1: "batch_requests (snd (generateImagesAndCaptions stub ''a red bicycle'' ''Sale'' 2 None)) =
     [(imageFullPrompt ''a red bicycle'' ''Sale'', 2)]"
    by blast
  from inst imgs have n: "length (caption_requests
      (snd (generateImagesAndCaptions stub ''a red bicycle'' ''Sale'' 2 None))) = 2"
    by simp
  then obtain x y where xy: "caption_requests
      (snd (generateImagesAndCaptions stub ''a red bicycle'' ''Sale'' 2 None)) = [x, y]"
    by (auto simp: length_Suc_conv numeral_2_eq_2)
  from inst have "\<forall>c \<in> set (caption_requests
      (snd (generateImagesAndCaptions stub ''a red bicycle'' ''Sale'' 2 None))).
      c = imageCaptionPrompt ''a red bicycle''"
    by blast
  with xy have 2: "caption_requests
      (snd (generateImagesAndCaptions stub ''a red bicycle'' ''Sale'' 2 None)) =
      [imageCaptionPrompt ''a red bicycle'', imageCaptionPrompt ''a red bicycle'']"
    by simp
  from inst have b: "\<forall>g. g (imageFullPrompt ''a red bicycle'' ''Sale'') 2 =
          generateImages stub (imageFullPrompt ''a red bicycle'' ''Sale'') 2 \<longrightarrow>
      generateImagesAndCaptions (stub\<lparr>generateImages := g\<rparr>) ''a red bicycle'' ''Sale'' 2 None =
      generateImagesAndCaptions stub ''a red bicycle'' ''Sale'' 2 None"
    by blast
  have 3: "generateImagesAndCaptions
     (stub\<lparr>generateImages := \<lambda>p n.
        if p = imageFullPrompt ''a red bicycle'' ''Sale'' \<and> n = 2
        then Inr [''AAAA'', ''BBBB''] else Inl (Error ''not asked'')\<rparr>)
     ''a red bicycle'' ''Sale'' 2 None =
   generateImagesAndCaptions stub ''a red bicycle'' ''Sale'' 2 None"
    by (rule b [rule_format]) (simp add: imgs)
  from inst have c: "\<forall>g. (\<forall>i. g i (imageCaptionPrompt ''a red bicycle'') =
          generateContent stub i (imageCaptionPrompt ''a red bicycle'')) \<longrightarrow>
      generateImagesAndCaptions (stub\<lparr>generateContent := g\<rparr>) ''a red bicycle'' ''Sale'' 2 None =
      generateImagesAndCaptions stub ''a red bicycle'' ''Sale'' 2 None"
    by blast
  have 4: "generateImagesAndCaptions
     (stub\<lparr>generateContent := \<lambda>i p.
        if p = imageCaptionPrompt ''a red bicycle''
        then Inr ''Ride on! #bike'' else Inl (Error ''not asked'')\<rparr>)
     ''a red bicycle'' ''Sale'' 2 None =
   generateImagesAndCaptions stub ''a red bicycle'' ''Sale'' 2 None"
    by (rule c [rule_format]) (simp add: stub_def)
  from inst have d: "\<forall>imgs texts.
      generateImages stub (imageFullPrompt ''a red bicycle'' ''Sale'') 2 = Inr imgs \<and>
      (\<forall>i < length imgs. generateContent stub i (imageCaptionPrompt ''a red bicycle'') = Inr (texts i)) \<longrightarrow>
      (\<exists>rs. fst (generateImagesAndCaptions stub ''a red bicycle'' ''Sale'' 2 None) = Resolved rs \<and>
         map caption rs = map texts [0 ..< length imgs])"
    by blast
  from d [rule_format, of "[''AAAA'', ''BBBB'']" "\<lambda>i. ''Ride on! #bike''"] imgs texts
  have 5: "\<exists>rs. fst (generateImagesAndCaptions stub ''a red bicycle'' ''Sale'' 2 None) = Resolved rs \<and>
      map caption rs = [''Ride on! #bike'', ''Ride on! #bike'']"
    by (simp add: upt_rec [of 0] upt_rec [of "Suc 0"] numeral_2_eq_2)
  from 1 2 3 4 5 show ?thesis unfolding fp cp by blast
qed

text \<open>
  Claim C4, as amended.  When the batch call and every caption call succeed, the call
  resolves to exactly one entry per image the provider returned, in the provider's
  order: the locator is the data URL of the image's bytes, which is never empty, and the
  caption is the text the provider answered for that image.  (The claim as written
  promises as many entries as variations were requested, and captions that are not
  empty: the function checks neither.)
\<close>

theorem image_results:
  assumes "generateImages env (imageFullPrompt prompt textOverlay) variations = Inr imgs"
    and "\<forall>i < length imgs. generateContent env i (imageCaptionPrompt prompt) = Inr (texts i)"
  shows "\<exists>rs. fst (generateImagesAndCaptions env prompt textOverlay variations userId) = Resolved rs \<and>
     length rs = length imgs \<and>
     (\<forall>i < length imgs.
        url (rs ! i) = ''data:image/jpeg;base64,'' @ imgs ! i \<and>
        url (rs ! i) \<noteq> [] \<and>
        caption (rs ! i) = texts i)"
proof -
  have "\<forall>i < length imgs. \<exists>t. generateContent env i (imageCaptionPrompt prompt) = Inr t"
    using assms(2) by blast
  from gic_resolved [OF assms(1) this, of userId]
  obtain rs where rs: "fst (generateImagesAndCaptions env prompt textOverlay variations userId) = Resolved rs"
    "length rs = length imgs"
    "\<forall>i < length imgs. url (rs ! i) = ''data:image/jpeg;base64,'' @ imgs ! i \<and>
        generateContent env i (imageCaptionPrompt prompt) = Inr (caption (rs ! i))"
    by blast
  have "url (rs ! i) = ''data:image/jpeg;base64,'' @ imgs ! i \<and> url (rs ! i) \<noteq> [] \<and>
        caption (rs ! i) = texts i" if "i < length imgs" for i
    using rs(3) assms(2) that by auto
  with rs(1,2) show ?thesis by blast
qed

text \<open>
  Against claim C4 as written: two variations are requested, the provider returns one
  image and an empty caption text, and the call resolves to that one entry.
\<close>

theorem image_results_follow_provider:
  "fst (generateImagesAndCaptions
      (stub\<lparr>generateImages := \<lambda>p n. Inr [''AAAA''], generateContent := \<lambda>i p. Inr ''''\<rparr>)
      ''a red bicycle'' '''' 2 None) =
   Resolved [\<lparr>url = ''data:image/jpeg;base64,AAAA'', caption = ''''\<rparr>]"
  by (simp add: generateImagesAndCaptions_def imageFullPrompt_def imageCaptionPrompt_def
      caption_branch_def promise_all_def Let_def)

text \<open>The stub provider: two images, each with the fixed caption.\<close>

theorem image_results_witness:
  "fst (generateImagesAndCaptions stub ''a red bicycle'' '''' 2 None) =
   Resolved [\<lparr>url = ''data:image/jpeg;base64,AAAA'', caption = ''Ride on! #bike''\<rparr>,
             \<lparr>url = ''data:image/jpeg;base64,BBBB'', caption = ''Ride on! #bike''\<rparr>]"
proof -
  have 1: "generateImages stub (imageFullPrompt ''a red bicycle'' '''') 2 = Inr [''AAAA'', ''BBBB'']"
    by (simp add: stub_def)
  have 2: "\<forall>i < length [''AAAA'', ''BBBB''].
      generateContent stub i (imageCaptionPrompt ''a red bicycle'') = Inr ((\<lambda>i. ''Ride on! #bike'') i)"
    by (simp add: stub_def)
  from image_results [OF 1 2, of None]
  obtain rs where rs: "fst (generateImagesAndCaptions stub ''a red bicycle'' '''' 2 None) = Resolved rs"
    "length rs = 2"
    "\<forall>i < 2. url (rs ! i) = ''data:image/jpeg;base64,'' @ [''AAAA'', ''BBBB''] ! i \<and>
        caption (rs ! i) = ''Ride on! #bike''"
    by auto
  from rs(2) obtain a b where ab: "rs = [a, b]"
    by (auto simp: length_Suc_conv numeral_2_eq_2)
  from rs(3) [rule_format, of 0] ab
  have "a = \<lparr>url = ''data:image/jpeg;base64,AAAA'', caption = ''Ride on! #bike''\<rparr>"
    by (cases a) simp
  moreover from rs(3) [rule_format, of "Suc 0"] ab
  have "b = \<lparr>url = ''data:image/jpeg;base64,BBBB'', caption = ''Ride on! #bike''\<rparr>"
    by (cases b) simp
  ultimately have "a = \<lparr>url = ''data:image/jpeg;base64,AAAA'', caption = ''Ride on! #bike''\<rparr>"
    and "b = \<lparr>url = ''data:image/jpeg;base64,BBBB'', caption = ''Ride on! #bike''\<rparr>"
    by simp_all
  with rs(1) ab show ?thesis by simp
qed

text \<open>
  Claim C7.  When the batch submission rejects, the call rejects with its error.  When
  any caption request rejects, the call rejects with the error of a caption request (the
  first rejection to arrive).  The call resolves only when the batch and every caption
  request succeeded, and then with one entry per image: never with a part of them.
\<close>

theorem image_fail_fast:
  "(generateImages env (imageFullPrompt prompt textOverlay) variations = Inl e \<longrightarrow>
      fst (generateImagesAndCaptions env prompt textOverlay variations userId) = Rejected e) \<and>
   (generateImages env (imageFullPrompt prompt textOverlay) variations = Inr imgs \<and>
    i < length imgs \<and> generateContent env i (imageCaptionPrompt prompt) = Inl e \<longrightarrow>
      (\<exists>e' j. j < length imgs \<and> generateContent env j (imageCaptionPrompt prompt) = Inl e' \<and>
         fst (generateImagesAndCaptions env prompt textOverlay variations userId) = Rejected e')) \<and>
   (fst (generateImagesAndCaptions env prompt textOverlay variations userId) = Resolved rs \<longrightarrow>
      (\<exists>imgs. generateImages env (imageFullPrompt prompt textOverlay) variations = Inr imgs \<and>
         length rs = length imgs \<and>
         (\<forall>i < length imgs. \<exists>t. generateContent env i (imageCaptionPrompt prompt) = Inr t)))"
proof (intro conjI impI)
  assume "generateImages env (imageFullPrompt prompt textOverlay) variations = Inl e"
  then show "fst (generateImagesAndCaptions env prompt textOverlay variations userId) = Rejected e"
    by (simp add: gic_batch_rejected)
next
  assume "generateImages env (imageFullPrompt prompt textOverlay) variations = Inr imgs \<and>
    i < length imgs \<and> generateContent env i (imageCaptionPrompt prompt) = Inl e"
  then show "\<exists>e' j. j < length imgs \<and> generateContent env j (imageCaptionPrompt prompt) = Inl e' \<and>
         fst (generateImagesAndCaptions env prompt textOverlay variations userId) = Rejected e'"
    using gic_rejected_cause by blast
next
  assume res: "fst (generateImagesAndCaptions env prompt textOverlay variations userId) = Resolved rs"
  from gic_resolved_only [OF this]
  obtain imgs where imgs: "generateImages env (imageFullPrompt prompt textOverlay) variations = Inr imgs"
    "\<forall>i < length imgs. \<exists>t. generateContent env i (imageCaptionPrompt prompt) = Inr t"
    by blast
  from gic_resolved [OF this, of userId] res have "length rs = length imgs" by auto
  with imgs show "\<exists>imgs. generateImages env (imageFullPrompt prompt textOverlay) variations = Inr imgs \<and>
         length rs = length imgs \<and>
         (\<forall>i < length imgs. \<exists>t. generateContent env i (imageCaptionPrompt prompt) = Inr t)"
    by blast
qed

text \<open>
  Three runs against the stub provider: the batch rejects; the second of two caption
  requests rejects; nothing rejects.
\<close>

theorem image_fail_fast_witness:
  "fst (generateImagesAndCaptions (stub\<lparr>generateImages := \<lambda>p n. Inl (Error ''quota exceeded'')\<rparr>)
      ''a red bicycle'' '''' 2 None) = Rejected (Error ''quota exceeded'') \<and>
   (\<exists>e'. fst (generateImagesAndCaptions
      (stub\<lparr>generateContent := \<lambda>i p. if i = 1 then Inl (Error ''overloaded'') else Inr ''ok''\<rparr>)
      ''a red bicycle'' '''' 2 None) = Rejected e') \<and>
   (\<exists>rs. fst (generateImagesAndCaptions stub ''a red bicycle'' '''' 2 None) = Resolved rs \<and>
      length rs = 2)"
proof -
  let ?e1 = "stub\<lparr>generateImages := \<lambda>p n. Inl (Error ''quota exceeded'')\<rparr>"
  let ?e2 = "stub\<lparr>generateContent := \<lambda>i p. if i = 1 then Inl (Error ''overloaded'') else Inr ''ok''\<rparr>"
  have a: "generateImages ?e1 (imageFullPrompt ''a red bicycle'' '''') 2 = Inl (Error ''quota exceeded'')"
    by simp
  have b: "generateImages ?e2 (imageFullPrompt ''a red bicycle'' '''') 2 = Inr [''AAAA'', ''BBBB''] \<and>
      1 < length [''AAAA'', ''BBBB''] \<and>
      generateContent ?e2 1 (imageCaptionPrompt ''a red bicycle'') = Inl (Error ''overloaded'')"
    by (simp add: stub_def)
  have c: "\<exists>rs. fst (generateImagesAndCaptions stub ''a red bicycle'' '''' 2 None) = Resolved rs"
    by (simp add: generateImagesAndCaptions_def stub_def imageFullPrompt_def imageCaptionPrompt_def
        caption_branch_def promise_all_def Let_def)
  then obtain rs where rs: "fst (generateImagesAndCaptions stub ''a red bicycle'' '''' 2 None) = Resolved rs"
    by blast
  have 1: "fst (generateImagesAndCaptions ?e1 ''a red bicycle'' '''' 2 None) = Rejected (Error ''quota exceeded'')"
    using image_fail_fast [of ?e1 "''a red bicycle''" "''''" 2 "Error ''quota exceeded''" None] a
    by blast
  have 2: "\<exists>e'. fst (generateImagesAndCaptions ?e2 ''a red bicycle'' '''' 2 None) = Rejected e'"
    using image_fail_fast [of ?e2 "''a red bicycle''" "''''" 2 "Error ''overloaded''" None
        "[''AAAA'', ''BBBB'']" 1] b
    by blast
  have "\<exists>imgs. generateImages stub (imageFullPrompt ''a red bicycle'' '''') 2 = Inr imgs \<and>
      length rs = length imgs"
    using image_fail_fast [of stub "''a red bicycle''" "''''" 2 _ None _ _ rs] rs by blast
  then have 3: "length rs = 2" by (auto simp: stub_def)
  from 1 2 3 rs show ?thesis by blast
qed

section \<open>The history recorder\<close>

lemma poll_recorder: "poll fuel (env\<lparr>recorder := r\<rparr>) h m = poll fuel env h m"
  by (induction fuel arbitrary: h m) (simp_all add: poll.simps Let_def split: sum.splits)

lemma afterPoll_recorder:
  "fst (afterPoll (env\<lparr>recorder := r\<rparr>) prompt userId h) = fst (afterPoll env prompt userId h) \<and>
   progress (snd (afterPoll (env\<lparr>recorder := r\<rparr>) prompt userId h)) =
     progress (snd (afterPoll env prompt userId h))"
  by (simp add: afterPoll_def Let_def progress_append split: option.splits sum.splits)

lemma gvc_recorder:
  "fst (generateVideoAndCaption fuel (env\<lparr>recorder := r\<rparr>) prompt music userId) =
     fst (generateVideoAndCaption fuel env prompt music userId) \<and>
   progress (snd (generateVideoAndCaption fuel (env\<lparr>recorder := r\<rparr>) prompt music userId)) =
     progress (snd (generateVideoAndCaption fuel env prompt music userId))"
proof (cases "generateVideos env (videoFullPrompt prompt music)")
  case (Inl e)
  then have "generateVideos (env\<lparr>recorder := r\<rparr>) (videoFullPrompt prompt music) = Inl e" by simp
  from gvc_submit_rejected [OF this] gvc_submit_rejected [OF Inl] show ?thesis by simp
next
  case (Inr h0)
  then have "generateVideos (env\<lparr>recorder := r\<rparr>) (videoFullPrompt prompt music) = Inr h0" by simp
  from gvc_submitted [OF this] gvc_submitted [OF Inr] show ?thesis
    by (simp add: poll_recorder afterPoll_recorder progress_append split: outcome.splits)
qed

lemma caption_branch_recorder:
  "caption_branch (env\<lparr>recorder := r\<rparr>) c i b = caption_branch env c i b"
  by (simp add: caption_branch_def)

lemma gic_recorder:
  "fst (generateImagesAndCaptions (env\<lparr>recorder := r\<rparr>) prompt textOverlay variations userId) =
   fst (generateImagesAndCaptions env prompt textOverlay variations userId)"
  by (simp add: generateImagesAndCaptions_def Let_def caption_branch_recorder split: sum.splits)

text \<open>
  Claim C8.  The promise of the recorder is never awaited: whatever it settles to, and so
  also when every write fails, both functions resolve to the same value or reject with
  the same error, and the progress callback receives the same messages.
\<close>

theorem recorder_independence:
  "fst (generateImagesAndCaptions (env\<lparr>recorder := r\<rparr>) prompt textOverlay variations userId) =
     fst (generateImagesAndCaptions (env\<lparr>recorder := r'\<rparr>) prompt textOverlay variations userId) \<and>
   fst (generateVideoAndCaption fuel (env\<lparr>recorder := r\<rparr>) prompt music userId) =
     fst (generateVideoAndCaption fuel (env\<lparr>recorder := r'\<rparr>) prompt music userId) \<and>
   progress (snd (generateVideoAndCaption fuel (env\<lparr>recorder := r\<rparr>) prompt music userId)) =
     progress (snd (generateVideoAndCaption fuel (env\<lparr>recorder := r'\<rparr>) prompt music userId))"
  by (simp add: gic_recorder gvc_recorder)

lemma stub_video_history:
  "AddToHistory ''mock-user-123''
     \<lparr>url = ''blob:local/1'', caption = ''Ride on! #bike'', media_prompt = ''a cat'',
      media_type = KVideo\<rparr> (Inl (Error ''history write failed''))
   \<in> set (snd (generateVideoAndCaption (Suc (Suc (Suc 0))) stub ''a cat'' ''jazz''
        (Some ''mock-user-123''))) \<and>
   fst (generateVideoAndCaption (Suc (Suc (Suc 0))) stub ''a cat'' ''jazz'' (Some ''mock-user-123'')) =
     Resolved \<lparr>url = ''blob:local/1'', caption = ''Ride on! #bike''\<rparr>"
  by (simp add: run_defs)

text \<open>
  The stub provider, whose recorder fails every write, and the same provider with a
  recorder that stores the entry: the write is attempted, and the result is the same.
\<close>

theorem recorder_independence_witness:
  "AddToHistory ''mock-user-123''
     \<lparr>url = ''blob:local/1'', caption = ''Ride on! #bike'', media_prompt = ''a cat'',
      media_type = KVideo\<rparr> (Inl (Error ''history write failed''))
   \<in> set (snd (generateVideoAndCaption (Suc (Suc (Suc 0))) stub ''a cat'' ''jazz''
        (Some ''mock-user-123''))) \<and>
   fst (generateVideoAndCaption (Suc (Suc (Suc 0)))
        (stub\<lparr>recorder := \<lambda>u x. Inr \<lparr>url = url x, caption = caption x,
            media_prompt = media_prompt x, media_type = media_type x,
            media_id = ''media-1-0.5'', timestamp = 1\<rparr>\<rparr>)
        ''a cat'' ''jazz'' (Some ''mock-user-123'')) =
     Resolved \<lparr>url = ''blob:local/1'', caption = ''Ride on! #bike''\<rparr>"
proof -
  have "stub\<lparr>recorder := recorder stub\<rparr> = stub" by simp
  with recorder_independence [where env = stub and r = "recorder stub"
      and r' = "\<lambda>u x. Inr \<lparr>url = url x, caption = caption x,
            media_prompt = media_prompt x, media_type = media_type x,
            media_id = ''media-1-0.5'', timestamp = 1\<rparr>"
      and fuel = "Suc (Suc (Suc 0))" and prompt = "''a cat''" and music = "''jazz''"
      and userId = "Some ''mock-user-123''" and textOverlay = "[]" and variations = 0]
    stub_video_history
  show ?thesis by simp
qed

section \<open>Reading the history\<close>

lemma mset_insert_by: "mset (insert_by compare a bs) = add_mset a (mset bs)"
  by (induction bs) simp_all

lemma mset_js_sort: "mset (js_sort compare items) = mset items"
  by (induction items) (simp_all add: js_sort_def mset_insert_by)

lemma set_insert_by: "set (insert_by compare a bs) = insert a (set bs)"
  by (induction bs) auto

lemma newest_first_insert:
  "sorted_wrt (\<lambda>a b. timestamp b \<le> timestamp a) bs \<Longrightarrow>
   sorted_wrt (\<lambda>a b. timestamp b \<le> timestamp a)
     (insert_by (\<lambda>a b. timestamp b - timestamp a) x bs)"
  by (induction bs) (auto simp: set_insert_by)

lemma newest_first_js_sort:
  "sorted_wrt (\<lambda>a b. timestamp b \<le> timestamp a)
     (js_sort (\<lambda>a b. timestamp b - timestamp a) items)"
  by (induction items) (simp_all add: js_sort_def newest_first_insert)

text \<open>
  For a user id that is not the name of a property every object inherits from
  \<^verbatim>\<open>Object.prototype\<close>, \<^verbatim>\<open>getHistory\<close> resolves to exactly the entries stored for
  that user, newest first, and leaves the log of every user as it was; a user never seen
  before gets an empty log.
\<close>

theorem getHistory_newest_first:
  assumes "userId \<notin> set object_prototype_names"
  shows "\<exists>items. fst (getHistory d userId) = Inr items \<and>
    mset items = mset (stored d userId) \<and>
    sorted_wrt (\<lambda>a b. timestamp b \<le> timestamp a) items \<and>
    (\<forall>u. stored (snd (getHistory d userId)) u = stored d u) \<and>
    history (snd (getHistory d userId)) userId = Some (stored d userId)"
proof (cases "history d userId")
  case None
  then have "getHistory d userId = (Inr [], d\<lparr>history := (history d)(userId \<mapsto> [])\<rparr>)"
    using assms by (simp add: getHistory_def read_history_def js_sort_def)
  then show ?thesis using None by (simp add: stored_def)
next
  case (Some items)
  then have "getHistory d userId =
      (Inr (js_sort (\<lambda>a b. timestamp b - timestamp a) items), d)"
    by (simp add: getHistory_def read_history_def)
  then show ?thesis using Some
    by (simp add: stored_def mset_js_sort newest_first_js_sort)
qed

text \<open>The sample store, read for its user and for a user it has never seen.\<close>

theorem getHistory_newest_first_witness:
  "fst (getHistory sample_db ''mock-user-123'') =
     Inr [entry ''media-30-0.3'' 30, entry ''media-20-0.2'' 20, entry ''media-10-0.1'' 10] \<and>
   stored (snd (getHistory sample_db ''mock-user-123'')) ''mock-user-123'' =
     [entry ''media-10-0.1'' 10, entry ''media-20-0.2'' 20, entry ''media-30-0.3'' 30] \<and>
   (\<exists>items. fst (getHistory sample_db ''someone-else'') = Inr items \<and> mset items = {#}) \<and>
   history (snd (getHistory sample_db ''someone-else'')) ''someone-else'' = Some []"
proof -
  have a: "''mock-user-123'' \<notin> set object_prototype_names"
    and b: "''someone-else'' \<notin> set object_prototype_names"
    by (simp_all add: object_prototype_names_def)
  have run: "fst (getHistory sample_db ''mock-user-123'') =
     Inr [entry ''media-30-0.3'' 30, entry ''media-20-0.2'' 20, entry ''media-10-0.1'' 10]"
    by (simp add: getHistory_def read_history_def sample_db_def js_sort_def entry_def)
  have s1: "stored sample_db ''mock-user-123'' =
     [entry ''media-10-0.1'' 10, entry ''media-20-0.2'' 20, entry ''media-30-0.3'' 30]"
    and s2: "stored sample_db ''someone-else'' = []"
    by (simp_all add: stored_def sample_db_def)
  from getHistory_newest_first [OF a, of sample_db] s1
  have 1: "stored (snd (getHistory sample_db ''mock-user-123'')) ''mock-user-123'' =
     [entry ''media-10-0.1'' 10, entry ''media-20-0.2'' 20, entry ''media-30-0.3'' 30]"
    by auto
  from getHistory_newest_first [OF b, of sample_db] s2
  have 2: "\<exists>items. fst (getHistory sample_db ''someone-else'') = Inr items \<and> mset items = {#}"
    and 3: "history (snd (getHistory sample_db ''someone-else'')) ''someone-else'' = Some []"
    by auto
  from run 1 2 3 show ?thesis by blast
qed


end
